theory Spec2Isabelle
  imports Complex_Main "HOL-Library.List_Lexorder" "HOL-Library.Multiset"
begin

section \<open>Values of the host language\<close>

text \<open>
  A JavaScript number is an IEEE double. The program only compares metric values with
  literals and passes them on, so a finite double is modelled by the real number it
  denotes; the three non-finite doubles are kept apart, since \<open>Number.isFinite\<close> and the
  comparisons tell them from the finite ones.
\<close>

datatype jsnum = Num real | NaN | PosInf | NegInf

text \<open>\<open>value >= c\<close>, \<open>value <= c\<close> and \<open>value === c\<close> for a finite literal \<open>c\<close>.\<close>

fun js_ge :: "jsnum \<Rightarrow> real \<Rightarrow> bool" where
  "js_ge (Num x) c = (c \<le> x)"
| "js_ge NaN c = False"
| "js_ge PosInf c = True"
| "js_ge NegInf c = False"

fun js_le :: "jsnum \<Rightarrow> real \<Rightarrow> bool" where
  "js_le (Num x) c = (x \<le> c)"
| "js_le NaN c = False"
| "js_le PosInf c = False"
| "js_le NegInf c = True"

fun js_eq :: "jsnum \<Rightarrow> real \<Rightarrow> bool" where
  "js_eq (Num x) c = (x = c)"
| "js_eq NaN c = False"
| "js_eq PosInf c = False"
| "js_eq NegInf c = False"

fun isFinite :: "jsnum \<Rightarrow> bool" where
  "isFinite (Num x) = True"
| "isFinite NaN = False"
| "isFinite PosInf = False"
| "isFinite NegInf = False"

text \<open>
  The values an \<open>unknown\<close> can hold after \<open>JSON.parse\<close>, and \<open>undefined\<close> (what reading a
  missing property gives). An object is the association list of its own properties; the
  first binding of a key is the one that counts.
\<close>

datatype jsval =
    JUndefined
  | JNull
  | JBool bool
  | JNumber jsnum
  | JString string
  | JArray "jsval list"
  | JObject "(string \<times> jsval) list"

fun typeof :: "jsval \<Rightarrow> string" where
  "typeof JUndefined = ''undefined''"
| "typeof JNull = ''object''"
| "typeof (JBool b) = ''boolean''"
| "typeof (JNumber n) = ''number''"
| "typeof (JString s) = ''string''"
| "typeof (JArray xs) = ''object''"
| "typeof (JObject kvs) = ''object''"

text \<open>\<open>Boolean(value)\<close>: the truthiness of a value.\<close>

fun Boolean :: "jsval \<Rightarrow> bool" where
  "Boolean JUndefined = False"
| "Boolean JNull = False"
| "Boolean (JBool b) = b"
| "Boolean (JNumber (Num x)) = (x \<noteq> 0)"
| "Boolean (JNumber NaN) = False"
| "Boolean (JNumber PosInf) = True"
| "Boolean (JNumber NegInf) = True"
| "Boolean (JString s) = (s \<noteq> [])"
| "Boolean (JArray xs) = True"
| "Boolean (JObject kvs) = True"

text \<open>
  \<open>item.key\<close> for one of the entry's field names: the property of an object, \<open>undefined\<close>
  when the object has none; an array has no property of those names.
\<close>

fun getProp :: "jsval \<Rightarrow> string \<Rightarrow> jsval" where
  "getProp (JObject kvs) k = (case map_of kvs k of None \<Rightarrow> JUndefined | Some v \<Rightarrow> v)"
| "getProp v k = JUndefined"

text \<open>
  The string functions of the host that the program calls. \<open>localeCompare\<close> is the
  collation of the host's locale, \<open>Number\<close> the conversion of a string to a number;
  \<open>trim\<close> and \<open>toLowerCase\<close> are the methods of \<open>String.prototype\<close>. The program is
  modelled over any host. A string is the list of its characters; the program itself
  only tests strings for equality and passes them on.
\<close>

record Host =
  localeCompare :: "string \<Rightarrow> string \<Rightarrow> int"
  Number :: "string \<Rightarrow> jsnum"
  trim :: "string \<Rightarrow> string"
  toLowerCase :: "string \<Rightarrow> string"

section \<open>Data model\<close>

record WeekEntry =
  weekStart :: string
  deepWorkH :: "jsnum option"
  playH :: "jsnum option"
  realContactsPerWeek :: "jsnum option"
  sleepScore :: "jsnum option"
  alcoholDeviationPerWeek :: "jsnum option"
  avgStepsPerDay :: "jsnum option"
  emergencyFundMonths :: "jsnum option"
  pipelineActionsPerWeek :: "jsnum option"
  incomeJPY :: "jsnum option"
  manualRedFlag :: "bool option"
  paymentRedFlag :: "bool option"
  notes' :: "string option"

record AutoFlags =
  sleep :: bool
  contacts :: bool
  noIncome :: bool

datatype grade = A | B | C

record DerivedWeek = WeekEntry +
  totalScore :: int
  grade :: grade
  emojiLabel :: string
  autoFlags :: AutoFlags
  overallRedFlag :: bool

section \<open>Scoring rules\<close>

definition scoreRules_deepWorkH :: "jsnum \<Rightarrow> int" where
  "scoreRules_deepWorkH v = (if js_ge v 12 then 2 else if js_ge v 6 then 1 else 0)"

definition scoreRules_playH :: "jsnum \<Rightarrow> int" where
  "scoreRules_playH v = (if js_ge v 6 then 2 else if js_ge v 2 then 1 else 0)"

definition scoreRules_realContactsPerWeek :: "jsnum \<Rightarrow> int" where
  "scoreRules_realContactsPerWeek v = (if js_ge v 1 then 2 else if js_ge v 0.5 then 1 else 0)"

definition scoreRules_sleepScore :: "jsnum \<Rightarrow> int" where
  "scoreRules_sleepScore v = (if js_ge v 7 then 2 else if js_ge v 5 then 1 else 0)"

definition scoreRules_alcoholDeviationPerWeek :: "jsnum \<Rightarrow> int" where
  "scoreRules_alcoholDeviationPerWeek v = (if js_eq v 0 then 2 else if js_eq v 1 then 1 else 0)"

definition scoreRules_avgStepsPerDay :: "jsnum \<Rightarrow> int" where
  "scoreRules_avgStepsPerDay v = (if js_ge v 7000 then 2 else if js_ge v 4000 then 1 else 0)"

definition scoreRules_emergencyFundMonths :: "jsnum \<Rightarrow> int" where
  "scoreRules_emergencyFundMonths v = (if js_ge v 12 then 2 else if js_ge v 6 then 1 else 0)"

definition scoreRules_pipelineActionsPerWeek :: "jsnum \<Rightarrow> int" where
  "scoreRules_pipelineActionsPerWeek v = (if js_ge v 2 then 2 else if js_ge v 1 then 1 else 0)"

text \<open>The glyphs of the labels are written as their UTF-8 bytes, followed by the grade's letter.\<close>

fun emojiMap :: "grade \<Rightarrow> string" where
  "emojiMap A = [CHR 0xF0, CHR 0x9F, CHR 0x9F, CHR 0xA2, CHR ''A'']"
| "emojiMap B = [CHR 0xF0, CHR 0x9F, CHR 0x9F, CHR 0xA1, CHR ''B'']"
| "emojiMap C = [CHR 0xF0, CHR 0x9F, CHR 0x94, CHR 0xB4, CHR ''C'']"

section \<open>Week ordering\<close>

text \<open>
  \<open>[...entries].sort((a, b) => a.weekStart.localeCompare(b.weekStart))\<close>. The sort of
  the language is stable: for a consistent comparison it returns the one arrangement that
  is ordered and keeps entries that compare equal in their input order, which is what
  inserting the entries one by one, each before the first entry that is greater, computes.
\<close>

fun insertEntry :: "Host \<Rightarrow> WeekEntry \<Rightarrow> WeekEntry list \<Rightarrow> WeekEntry list" where
  "insertEntry h a [] = [a]"
| "insertEntry h a (b # bs) =
     (if localeCompare h (weekStart a) (weekStart b) \<le> 0 then a # b # bs
      else b # insertEntry h a bs)"

definition sortEntries :: "Host \<Rightarrow> WeekEntry list \<Rightarrow> WeekEntry list" where
  "sortEntries h entries = foldr (insertEntry h) entries []"

section \<open>Derivation\<close>

text \<open>The three counters that the callback of \<open>computeDerivedWeeks\<close> reads and writes.\<close>

record Streaks =
  sleepStreak :: nat
  contactStreak :: nat
  noIncomeStreak :: nat

definition valueOrZero :: "jsnum option \<Rightarrow> jsnum" where
  "valueOrZero v = (case v of None \<Rightarrow> Num 0 | Some x \<Rightarrow> x)"

text \<open>The callback given to \<open>map\<close>: one entry, with the counters passed in and out.\<close>

definition deriveWeek :: "Streaks \<Rightarrow> WeekEntry \<Rightarrow> DerivedWeek \<times> Streaks" where
  "deriveWeek st entry =
    (let scores =
           [scoreRules_deepWorkH (valueOrZero (deepWorkH entry)),
            scoreRules_playH (valueOrZero (playH entry)),
            scoreRules_realContactsPerWeek (valueOrZero (realContactsPerWeek entry)),
            scoreRules_sleepScore (valueOrZero (sleepScore entry)),
            scoreRules_alcoholDeviationPerWeek (valueOrZero (alcoholDeviationPerWeek entry)),
            scoreRules_avgStepsPerDay (valueOrZero (avgStepsPerDay entry)),
            scoreRules_emergencyFundMonths (valueOrZero (emergencyFundMonths entry)),
            scoreRules_pipelineActionsPerWeek (valueOrZero (pipelineActionsPerWeek entry))];
         total = foldl (\<lambda>acc current. acc + current) 0 scores;
         baseGrade = (if total \<ge> 13 then A else if total \<ge> 8 then B else C);
         sleepLow = js_le (valueOrZero (sleepScore entry)) 4;
         sleepStreak1 = (if sleepLow then sleepStreak st + 1 else 0);
         sleepFlag = (sleepStreak1 \<ge> 2);
         contactZero = js_le (valueOrZero (realContactsPerWeek entry)) 0;
         contactStreak1 = (if contactZero then contactStreak st + 1 else 0);
         contactFlag = (contactStreak1 \<ge> 2);
         incomeZero = js_le (valueOrZero (incomeJPY entry)) 0;
         noIncomeStreak1 = (if incomeZero then noIncomeStreak st + 1 else 0);
         noIncomeFlag = (noIncomeStreak1 \<ge> 8);
         flags = \<lparr>sleep = sleepFlag, contacts = contactFlag, noIncome = noIncomeFlag\<rparr>;
         red = (manualRedFlag entry = Some True \<or> paymentRedFlag entry = Some True
                \<or> list_ex (\<lambda>b. b) [sleepFlag, contactFlag, noIncomeFlag]);
         g = (if red then C else baseGrade);
         label = (if red then emojiMap C else emojiMap baseGrade)
     in (WeekEntry.extend entry (DerivedWeek.fields total g label flags red),
         \<lparr>sleepStreak = sleepStreak1, contactStreak = contactStreak1,
          noIncomeStreak = noIncomeStreak1\<rparr>))"

text \<open>\<open>Array.prototype.map\<close> with that callback: left to right, the counters threaded.\<close>

fun mapWeeks :: "Streaks \<Rightarrow> WeekEntry list \<Rightarrow> DerivedWeek list" where
  "mapWeeks st [] = []"
| "mapWeeks st (entry # rest) =
     (case deriveWeek st entry of (d, st') \<Rightarrow> d # mapWeeks st' rest)"

definition computeDerivedWeeks :: "Host \<Rightarrow> WeekEntry list \<Rightarrow> DerivedWeek list" where
  "computeDerivedWeeks h entries =
     mapWeeks \<lparr>sleepStreak = 0, contactStreak = 0, noIncomeStreak = 0\<rparr> (sortEntries h entries)"

section \<open>Entry sanitizer\<close>

definition toNumericValue :: "Host \<Rightarrow> jsval \<Rightarrow> jsnum option" where
  "toNumericValue h v =
     (case v of
        JNull \<Rightarrow> None
      | JUndefined \<Rightarrow> None
      | JNumber n \<Rightarrow> (if isFinite n then Some n else None)
      | JString s \<Rightarrow>
          (let trimmed = trim h s in
           if trimmed = [] then None
           else (let parsed = Number h trimmed in
                 if isFinite parsed then Some parsed else None))
      | _ \<Rightarrow> None)"

definition toBooleanValue :: "Host \<Rightarrow> jsval \<Rightarrow> bool" where
  "toBooleanValue h v =
     (case v of
        JBool b \<Rightarrow> b
      | JString s \<Rightarrow>
          (let normalized = toLowerCase h (trim h s) in
           if normalized = ''true'' then True
           else if normalized = ''false'' then False
           else Boolean v)
      | _ \<Rightarrow> Boolean v)"

text \<open>The object that the loop of \<open>parseStoredEntries\<close> pushes for an item.\<close>

definition sanitizeItem :: "Host \<Rightarrow> jsval \<Rightarrow> string \<Rightarrow> WeekEntry" where
  "sanitizeItem h item ws =
     \<lparr>weekStart = ws,
      deepWorkH = toNumericValue h (getProp item ''deepWorkH''),
      playH = toNumericValue h (getProp item ''playH''),
      realContactsPerWeek = toNumericValue h (getProp item ''realContactsPerWeek''),
      sleepScore = toNumericValue h (getProp item ''sleepScore''),
      alcoholDeviationPerWeek = toNumericValue h (getProp item ''alcoholDeviationPerWeek''),
      avgStepsPerDay = toNumericValue h (getProp item ''avgStepsPerDay''),
      emergencyFundMonths = toNumericValue h (getProp item ''emergencyFundMonths''),
      pipelineActionsPerWeek = toNumericValue h (getProp item ''pipelineActionsPerWeek''),
      incomeJPY = toNumericValue h (getProp item ''incomeJPY''),
      manualRedFlag = Some (toBooleanValue h (getProp item ''manualRedFlag'')),
      paymentRedFlag = Some (toBooleanValue h (getProp item ''paymentRedFlag'')),
      notes' = Some (case getProp item ''notes'' of JString s \<Rightarrow> s | _ \<Rightarrow> [])\<rparr>"

text \<open>
  The \<open>for\<close> loop over the items, with the array \<open>sanitized\<close> it pushes to; \<open>None\<close> is
  the \<open>null\<close> of the early returns.
\<close>

fun parseLoop :: "Host \<Rightarrow> WeekEntry list \<Rightarrow> jsval list \<Rightarrow> WeekEntry list option" where
  "parseLoop h sanitized [] = Some sanitized"
| "parseLoop h sanitized (item # rest) =
     (if \<not> Boolean item \<or> typeof item \<noteq> ''object'' then None
      else (case getProp item ''weekStart'' of
              JString ws \<Rightarrow> parseLoop h (sanitized @ [sanitizeItem h item ws]) rest
            | _ \<Rightarrow> None))"

definition parseStoredEntries :: "Host \<Rightarrow> jsval \<Rightarrow> WeekEntry list option" where
  "parseStoredEntries h raw =
     (case raw of
        JArray items \<Rightarrow>
          (case parseLoop h [] items of
             None \<Rightarrow> None
           | Some sanitized \<Rightarrow> Some (sortEntries h sanitized))
      | _ \<Rightarrow> None)"

section \<open>Operations on the working collection\<close>

text \<open>
  \<open>createEmptyEntry\<close>; the week it defaults to (the Monday of the current week) is the
  caller's argument here.
\<close>

definition createEmptyEntry :: "string \<Rightarrow> WeekEntry" where
  "createEmptyEntry ws =
     \<lparr>weekStart = ws, deepWorkH = None, playH = None, realContactsPerWeek = None,
      sleepScore = None, alcoholDeviationPerWeek = None, avgStepsPerDay = None,
      emergencyFundMonths = None, pipelineActionsPerWeek = None, incomeJPY = None,
      manualRedFlag = Some False, paymentRedFlag = Some False, notes' = Some []\<rparr>"

text \<open>
  \<open>loadEntries\<close>, from the value that \<open>JSON.parse\<close> gave for the stored text; \<open>None\<close>
  when there is no window, no stored text, or the text does not parse.
\<close>

definition loadEntries :: "Host \<Rightarrow> string \<Rightarrow> jsval option \<Rightarrow> WeekEntry list" where
  "loadEntries h today stored =
     (case stored of
        None \<Rightarrow> [createEmptyEntry today]
      | Some parsed \<Rightarrow>
          (case parseStoredEntries h parsed of
             None \<Rightarrow> [createEmptyEntry today]
           | Some sanitized \<Rightarrow>
               if length sanitized = 0 then [createEmptyEntry today]
               else sortEntries h sanitized))"

text \<open>\<open>handleDeleteEntry\<close>: the new value of the collection.\<close>

definition handleDeleteEntry :: "Host \<Rightarrow> nat \<Rightarrow> WeekEntry list \<Rightarrow> WeekEntry list" where
  "handleDeleteEntry h index prev =
     (if length prev \<le> 1 then prev
      else sortEntries h (map snd (filter (\<lambda>(idx, e). idx \<noteq> index) (enumerate 0 prev))))"

text \<open>
  \<open>handleImport\<close>, from the value that \<open>JSON.parse\<close> gave for the file's text (\<open>None\<close>
  when it threw): the new value of the collection. On a failure the collection is left
  as it was and only the error message is set.
\<close>

definition handleImport :: "Host \<Rightarrow> jsval option \<Rightarrow> WeekEntry list \<Rightarrow> WeekEntry list" where
  "handleImport h file prev =
     (case file of
        None \<Rightarrow> prev
      | Some parsed \<Rightarrow>
          (case parseStoredEntries h parsed of
             None \<Rightarrow> prev
           | Some sanitized \<Rightarrow> sanitized))"

definition handleClearAll :: "string \<Rightarrow> bool \<Rightarrow> WeekEntry list \<Rightarrow> WeekEntry list" where
  "handleClearAll today confirmed prev =
     (if \<not> confirmed then prev else [createEmptyEntry today])"

section \<open>Auxiliary notions for the properties\<close>

subsection \<open>Scores\<close>




text \<open>The eight sub-scores of an entry, in the order of the array \<open>scores\<close>.\<close>

definition subScores :: "WeekEntry \<Rightarrow> int list" where
  "subScores entry =
     [scoreRules_deepWorkH (valueOrZero (deepWorkH entry)),
      scoreRules_playH (valueOrZero (playH entry)),
      scoreRules_realContactsPerWeek (valueOrZero (realContactsPerWeek entry)),
      scoreRules_sleepScore (valueOrZero (sleepScore entry)),
      scoreRules_alcoholDeviationPerWeek (valueOrZero (alcoholDeviationPerWeek entry)),
      scoreRules_avgStepsPerDay (valueOrZero (avgStepsPerDay entry)),
      scoreRules_emergencyFundMonths (valueOrZero (emergencyFundMonths entry)),
      scoreRules_pipelineActionsPerWeek (valueOrZero (pipelineActionsPerWeek entry))]"

subsection \<open>Runs of failing weeks\<close>

text \<open>
  The length of the run of consecutive weeks that satisfy \<open>P\<close> and end with week \<open>i\<close> of
  \<open>xs\<close>, week \<open>i\<close> included: 0 when week \<open>i\<close> does not satisfy \<open>P\<close>.
\<close>

definition runLength :: "('a \<Rightarrow> bool) \<Rightarrow> 'a list \<Rightarrow> nat \<Rightarrow> nat" where
  "runLength P xs i = length (takeWhile P (rev (take (Suc i) xs)))"

text \<open>
  A metric, read as zero when it is absent, is at most \<open>c\<close>. A value that is not a
  number is at most nothing, the positive infinity neither, the negative infinity is at
  most everything.
\<close>

fun atMost :: "jsnum option \<Rightarrow> real \<Rightarrow> bool" where
  "atMost None c = (0 \<le> c)"
| "atMost (Some (Num x)) c = (x \<le> c)"
| "atMost (Some NaN) c = False"
| "atMost (Some PosInf) c = False"
| "atMost (Some NegInf) c = True"

text \<open>The failure conditions of the three flags.\<close>

definition lowSleep :: "WeekEntry \<Rightarrow> bool" where
  "lowSleep e = atMost (sleepScore e) 4"

definition noContact :: "WeekEntry \<Rightarrow> bool" where
  "noContact e = atMost (realContactsPerWeek e) 0"

definition noIncomeWeek :: "WeekEntry \<Rightarrow> bool" where
  "noIncomeWeek e = atMost (incomeJPY e) 0"

text \<open>Two entries compare equal: each is at most the other in the host's comparison.\<close>

definition sameRank :: "Host \<Rightarrow> WeekEntry \<Rightarrow> WeekEntry \<Rightarrow> bool" where
  "sameRank h x e = (localeCompare h (weekStart e) (weekStart x) \<le> 0
                     \<and> localeCompare h (weekStart x) (weekStart e) \<le> 0)"

text \<open>The counters after the callback has run on the entries \<open>es\<close>, in their order.\<close>

definition streaksAfter :: "Streaks \<Rightarrow> WeekEntry list \<Rightarrow> Streaks" where
  "streaksAfter st es = foldl (\<lambda>s e. snd (deriveWeek s e)) st es"

fun counter :: "('a \<Rightarrow> bool) \<Rightarrow> nat \<Rightarrow> 'a list \<Rightarrow> nat" where
  "counter P c [] = c"
| "counter P c (x # xs) = counter P (if P x then c + 1 else 0) xs"

subsection \<open>Orders on week starts\<close>

text \<open>
  What the sort needs of the host's comparison: any two strings are comparable, and the
  comparison is transitive. Every consistent comparison function in the sense of the
  language standard, as \<open>localeCompare\<close> is required to be, has both properties.
\<close>

definition consistentComparator :: "Host \<Rightarrow> bool" where
  "consistentComparator h =
     ((\<forall>a b. localeCompare h a b \<le> 0 \<or> localeCompare h b a \<le> 0) \<and>
      (\<forall>a b c. localeCompare h a b \<le> 0 \<and> localeCompare h b c \<le> 0
                \<longrightarrow> localeCompare h a c \<le> 0))"

definition hostLe :: "Host \<Rightarrow> WeekEntry \<Rightarrow> WeekEntry \<Rightarrow> bool" where
  "hostLe h a b = (localeCompare h (weekStart a) (weekStart b) \<le> 0)"

text \<open>
  Lexicographic comparison of strings, character code by character code (the order of
  the operators \<open><\<close> and \<open><=\<close> on strings).
\<close>

definition codeUnits :: "string \<Rightarrow> nat list" where
  "codeUnits s = map of_char s"

definition lexLe :: "WeekEntry \<Rightarrow> WeekEntry \<Rightarrow> bool" where
  "lexLe a b = (codeUnits (weekStart a) \<le> codeUnits (weekStart b))"

subsection \<open>Boolean coercion in the words of the specification\<close>

text \<open>
  A native boolean passes through; a string that matches "true" or "false" without regard
  to case gives that boolean; anything else gives the truthiness of the value.
\<close>

definition spec_toBooleanValue :: "Host \<Rightarrow> jsval \<Rightarrow> bool" where
  "spec_toBooleanValue h v =
     (case v of
        JBool b \<Rightarrow> b
      | JString s \<Rightarrow>
          (if toLowerCase h s = ''true'' then True
           else if toLowerCase h s = ''false'' then False
           else Boolean v)
      | _ \<Rightarrow> Boolean v)"

subsection \<open>The coercions, case by case\<close>

text \<open>
  A finite number passes through; a string is trimmed and converted, and gives the
  converted value if the trimmed string is not empty and the value is finite; every
  other value gives an absent field.
\<close>

fun coerceNumber :: "Host \<Rightarrow> jsval \<Rightarrow> jsnum option" where
  "coerceNumber h (JNumber (Num x)) = Some (Num x)"
| "coerceNumber h (JString s) =
     (if trim h s = [] then None
      else (case Number h (trim h s) of Num x \<Rightarrow> Some (Num x) | _ \<Rightarrow> None))"
| "coerceNumber h v = None"

text \<open>
  A boolean passes through; a string that is "true" or "false" once trimmed and put in
  lower case gives that boolean; every other value gives its truthiness: false for
  \<open>undefined\<close>, \<open>null\<close>, the empty string, zero and the number that is none, true for
  every other string and number, for arrays and for objects.
\<close>

fun coerceBoolean :: "Host \<Rightarrow> jsval \<Rightarrow> bool" where
  "coerceBoolean h (JBool b) = b"
| "coerceBoolean h (JString s) =
     (if toLowerCase h (trim h s) = ''true'' then True
      else if toLowerCase h (trim h s) = ''false'' then False
      else s \<noteq> [])"
| "coerceBoolean h (JNumber (Num x)) = (x \<noteq> 0)"
| "coerceBoolean h (JNumber NaN) = False"
| "coerceBoolean h (JNumber PosInf) = True"
| "coerceBoolean h (JNumber NegInf) = True"
| "coerceBoolean h (JArray xs) = True"
| "coerceBoolean h (JObject kvs) = True"
| "coerceBoolean h JUndefined = False"
| "coerceBoolean h JNull = False"

text \<open>Notes pass through if they are a string, and are the empty string otherwise.\<close>

fun coerceNotes :: "jsval \<Rightarrow> string" where
  "coerceNotes (JString s) = s"
| "coerceNotes v = []"

fun weekStartString :: "jsval \<Rightarrow> string" where
  "weekStartString (JString s) = s"
| "weekStartString v = []"

text \<open>The entry of an item, field by field.\<close>

definition coerceEntry :: "Host \<Rightarrow> jsval \<Rightarrow> WeekEntry" where
  "coerceEntry h item =
     \<lparr>weekStart = weekStartString (getProp item ''weekStart''),
      deepWorkH = coerceNumber h (getProp item ''deepWorkH''),
      playH = coerceNumber h (getProp item ''playH''),
      realContactsPerWeek = coerceNumber h (getProp item ''realContactsPerWeek''),
      sleepScore = coerceNumber h (getProp item ''sleepScore''),
      alcoholDeviationPerWeek = coerceNumber h (getProp item ''alcoholDeviationPerWeek''),
      avgStepsPerDay = coerceNumber h (getProp item ''avgStepsPerDay''),
      emergencyFundMonths = coerceNumber h (getProp item ''emergencyFundMonths''),
      pipelineActionsPerWeek = coerceNumber h (getProp item ''pipelineActionsPerWeek''),
      incomeJPY = coerceNumber h (getProp item ''incomeJPY''),
      manualRedFlag = Some (coerceBoolean h (getProp item ''manualRedFlag'')),
      paymentRedFlag = Some (coerceBoolean h (getProp item ''paymentRedFlag'')),
      notes' = Some (coerceNotes (getProp item ''notes''))\<rparr>"

subsection \<open>The persisted representation\<close>

text \<open>
  The value of \<open>JSON.parse(JSON.stringify(entry))\<close>, after the rules of the language's
  JSON: a property whose value is \<open>undefined\<close> is left out, a number that is not finite
  is written as \<open>null\<close>, and a finite number, a boolean and a string are read back as
  they were written.
\<close>

definition jsonNumber :: "jsnum \<Rightarrow> jsval" where
  "jsonNumber n = (if isFinite n then JNumber n else JNull)"

definition jsonField :: "string \<Rightarrow> ('a \<Rightarrow> jsval) \<Rightarrow> 'a option \<Rightarrow> (string \<times> jsval) list" where
  "jsonField k f v = (case v of None \<Rightarrow> [] | Some x \<Rightarrow> [(k, f x)])"

definition jsonRoundTrip :: "WeekEntry \<Rightarrow> jsval" where
  "jsonRoundTrip e =
     JObject
       ([(''weekStart'', JString (weekStart e))]
        @ jsonField ''deepWorkH'' jsonNumber (deepWorkH e)
        @ jsonField ''playH'' jsonNumber (playH e)
        @ jsonField ''realContactsPerWeek'' jsonNumber (realContactsPerWeek e)
        @ jsonField ''sleepScore'' jsonNumber (sleepScore e)
        @ jsonField ''alcoholDeviationPerWeek'' jsonNumber (alcoholDeviationPerWeek e)
        @ jsonField ''avgStepsPerDay'' jsonNumber (avgStepsPerDay e)
        @ jsonField ''emergencyFundMonths'' jsonNumber (emergencyFundMonths e)
        @ jsonField ''pipelineActionsPerWeek'' jsonNumber (pipelineActionsPerWeek e)
        @ jsonField ''incomeJPY'' jsonNumber (incomeJPY e)
        @ jsonField ''manualRedFlag'' JBool (manualRedFlag e)
        @ jsonField ''paymentRedFlag'' JBool (paymentRedFlag e)
        @ jsonField ''notes'' JString (notes' e))"

text \<open>A valid entry: every numeric field is absent or finite.\<close>

definition finiteOrAbsent :: "jsnum option \<Rightarrow> bool" where
  "finiteOrAbsent v = (case v of None \<Rightarrow> True | Some n \<Rightarrow> isFinite n)"

definition validEntry :: "WeekEntry \<Rightarrow> bool" where
  "validEntry e =
     (finiteOrAbsent (deepWorkH e) \<and> finiteOrAbsent (playH e)
      \<and> finiteOrAbsent (realContactsPerWeek e) \<and> finiteOrAbsent (sleepScore e)
      \<and> finiteOrAbsent (alcoholDeviationPerWeek e) \<and> finiteOrAbsent (avgStepsPerDay e)
      \<and> finiteOrAbsent (emergencyFundMonths e) \<and> finiteOrAbsent (pipelineActionsPerWeek e)
      \<and> finiteOrAbsent (incomeJPY e))"

text \<open>
  Normalization of the absent fields: an absent boolean becomes \<open>false\<close>, absent notes
  the empty string; the numeric fields stay as they are.
\<close>

definition normalizeEntry :: "WeekEntry \<Rightarrow> WeekEntry" where
  "normalizeEntry e =
     e\<lparr>manualRedFlag := Some (case manualRedFlag e of None \<Rightarrow> False | Some b \<Rightarrow> b),
       paymentRedFlag := Some (case paymentRedFlag e of None \<Rightarrow> False | Some b \<Rightarrow> b),
       notes' := Some (case notes' e of None \<Rightarrow> [] | Some s \<Rightarrow> s)\<rparr>"

subsection \<open>A concrete host\<close>

text \<open>
  A host for concrete runs, which agrees with a browser on the inputs it is used on and
  is no model of one beyond them. On strings of ASCII characters its \<open>trim\<close> and
  \<open>toLowerCase\<close> are those of the language. Its \<open>Number\<close> reads strings of decimal
  digits only and gives the number that is none for every other string, also for those
  with a sign, a fraction or an exponent, which the language converts. Its comparison
  orders strings by their lower-case form and calls two strings equal that differ in
  case only, which the collation of a browser orders too (lower case first); it is used
  on week starts that differ in more than case.
\<close>

definition isAsciiSpace :: "char \<Rightarrow> bool" where
  "isAsciiSpace c = (let n = (of_char c :: nat) in (9 \<le> n \<and> n \<le> 13) \<or> n = 32)"

definition asciiTrim :: "string \<Rightarrow> string" where
  "asciiTrim s = rev (dropWhile isAsciiSpace (rev (dropWhile isAsciiSpace s)))"

definition asciiLowerChar :: "char \<Rightarrow> char" where
  "asciiLowerChar c =
     (let n = (of_char c :: nat) in if 65 \<le> n \<and> n \<le> 90 then char_of (n + 32) else c)"

definition asciiLower :: "string \<Rightarrow> string" where
  "asciiLower s = map asciiLowerChar s"

definition isDigit :: "char \<Rightarrow> bool" where
  "isDigit c = (let n = (of_char c :: nat) in 48 \<le> n \<and> n \<le> 57)"

definition decimalNumber :: "string \<Rightarrow> jsnum" where
  "decimalNumber s =
     (if s \<noteq> [] \<and> list_all isDigit s
      then Num (real (foldl (\<lambda>n c. 10 * n + (of_char c - 48)) 0 s))
      else NaN)"

definition caselessCompare :: "string \<Rightarrow> string \<Rightarrow> int" where
  "caselessCompare s t =
     (let a = codeUnits (asciiLower s); b = codeUnits (asciiLower t)
      in if a < b then - 1 else if b < a then 1 else 0)"

definition asciiHost :: Host where
  "asciiHost =
     \<lparr>localeCompare = caselessCompare, Number = decimalNumber,
      trim = asciiTrim, toLowerCase = asciiLower\<rparr>"

subsection \<open>Concrete inputs\<close>

text \<open>An empty entry with a sleep score and an income filled in.\<close>

definition week :: "string \<Rightarrow> jsnum option \<Rightarrow> jsnum option \<Rightarrow> WeekEntry" where
  "week ws sl inc = (createEmptyEntry ws)\<lparr>sleepScore := sl, incomeJPY := inc\<rparr>"

text \<open>
  Eight weeks in a row without income (the third with the income left out), each with a
  sleep score of 8.
\<close>

definition weeks8 :: "WeekEntry list" where
  "weeks8 =
     [week ''2024-01-01'' (Some (Num 8)) (Some (Num 0)),
      week ''2024-01-08'' (Some (Num 8)) (Some (Num 0)),
      week ''2024-01-15'' (Some (Num 8)) None,
      week ''2024-01-22'' (Some (Num 8)) (Some (Num 0)),
      week ''2024-01-29'' (Some (Num 8)) (Some (Num 0)),
      week ''2024-02-05'' (Some (Num 8)) (Some (Num 0)),
      week ''2024-02-12'' (Some (Num 8)) (Some (Num 0)),
      week ''2024-02-19'' (Some (Num 8)) (Some (Num 0))]"

text \<open>A week with every metric in the top tier, the alcohol field left out, and the payment flag set.\<close>

definition flaggedWeek :: WeekEntry where
  "flaggedWeek =
     \<lparr>weekStart = ''2024-03-04'', deepWorkH = Some (Num 12), playH = Some (Num 6),
      realContactsPerWeek = Some (Num 1), sleepScore = Some (Num 7),
      alcoholDeviationPerWeek = None, avgStepsPerDay = Some (Num 7000),
      emergencyFundMonths = Some (Num 12), pipelineActionsPerWeek = Some (Num 2),
      incomeJPY = Some (Num 300000), manualRedFlag = Some False,
      paymentRedFlag = Some True, notes' = Some []\<rparr>"

subsection \<open>Acceptance of an item\<close>

text \<open>\<open>Array.isArray\<close>.\<close>

fun isArray :: "jsval \<Rightarrow> bool" where
  "isArray (JArray xs) = True"
| "isArray v = False"

text \<open>
  The two checks that the loop makes on an item: it is a structured record (a value that
  is truthy and of type object), and its week start is a string.
\<close>

definition accepted :: "jsval \<Rightarrow> bool" where
  "accepted item =
     (Boolean item \<and> typeof item = ''object''
      \<and> typeof (getProp item ''weekStart'') = ''string'')"

fun stringOf :: "jsval \<Rightarrow> string" where
  "stringOf (JString s) = s"
| "stringOf v = []"

text \<open>The entry that the loop pushes for an accepted item.\<close>

definition sanitizeEntry :: "Host \<Rightarrow> jsval \<Rightarrow> WeekEntry" where
  "sanitizeEntry h item = sanitizeItem h item (stringOf (getProp item ''weekStart''))"

text \<open>Two objects with the week starts "a" and "B", and two with ISO dates out of order.\<close>

definition batchAB :: jsval where
  "batchAB =
     JArray [JObject [(''weekStart'', JString ''a'')], JObject [(''weekStart'', JString ''B'')]]"

definition batchIso :: jsval where
  "batchIso =
     JArray [JObject [(''weekStart'', JString ''2024-01-08''), (''sleepScore'', JString '' 7 '')],
             JObject [(''weekStart'', JString ''2024-01-01''), (''notes'', JNumber (Num 1))]]"

text \<open>A stored week with absent fields: no play hours, no manual flag, no notes.\<close>

definition storedWeek :: WeekEntry where
  "storedWeek =
     \<lparr>weekStart = ''2024-04-01'', deepWorkH = Some (Num 12.5), playH = None,
      realContactsPerWeek = Some (Num 1), sleepScore = Some (Num 7),
      alcoholDeviationPerWeek = None, avgStepsPerDay = Some (Num 8000),
      emergencyFundMonths = None, pipelineActionsPerWeek = Some (Num 0),
      incomeJPY = Some (Num 250000), manualRedFlag = None,
      paymentRedFlag = Some True, notes' = None\<rparr>"

text \<open>
  Three entries of one week, the first and the last with a low sleep score and the one
  between them with a high one.
\<close>

definition sameWeek3 :: "WeekEntry list" where
  "sameWeek3 =
     [week ''2024-05-06'' (Some (Num 3)) None,
      week ''2024-05-06'' (Some (Num 9)) None,
      week ''2024-05-06'' (Some (Num 3)) None]"

text \<open>
  Two entries of one week with low sleep scores; an earlier week with a high score stands
  between them in the input.
\<close>

definition sameWeek2 :: "WeekEntry list" where
  "sameWeek2 =
     [week ''2024-05-06'' (Some (Num 3)) None,
      week ''2024-04-29'' (Some (Num 9)) None,
      week ''2024-05-06'' (Some (Num 4)) None]"

text \<open>
  Four weeks given out of order. In date order their sleep scores are 3, 9, absent and
  4: a low week, a week that resets the counter, and two low weeks of which the first
  has no score.
\<close>

definition weeksMixed :: "WeekEntry list" where
  "weeksMixed =
     [week ''2024-01-15'' None (Some (Num 1000)),
      week ''2024-01-01'' (Some (Num 3)) (Some (Num 1000)),
      week ''2024-01-22'' (Some (Num 4)) None,
      week ''2024-01-08'' (Some (Num 9)) (Some (Num 0))]"

text \<open>
  An item with malformed fields: an infinite number, a string that is no number, a
  padded number, a padded boolean in capitals, a number for a boolean and for the notes.
\<close>

definition messyItem :: jsval where
  "messyItem =
     JObject [(''weekStart'', JString ''2024-06-03''),
              (''deepWorkH'', JNumber PosInf),
              (''playH'', JString ''abc''),
              (''sleepScore'', JString '' 7 ''),
              (''avgStepsPerDay'', JNumber (Num 7000)),
              (''incomeJPY'', JBool True),
              (''manualRedFlag'', JString '' TRUE ''),
              (''paymentRedFlag'', JNumber (Num 0)),
              (''notes'', JNumber (Num 5))]"

text \<open>A batch of two items with the same week start.\<close>

definition batchSameWeek :: jsval where
  "batchSameWeek =
     JArray [JObject [(''weekStart'', JString ''2024-05-06'')],
             JObject [(''weekStart'', JString ''2024-05-06'')]]"

section \<open>Properties of the derivation step\<close>

lemma truncate_deriveWeek: "WeekEntry.truncate (fst (deriveWeek st e)) = e"
  by (simp add: deriveWeek_def Let_def WeekEntry.defs DerivedWeek.defs)

lemma totalScore_deriveWeek:
  "totalScore (fst (deriveWeek st e)) = sum_list (subScores e)"
  by (simp add: deriveWeek_def Let_def WeekEntry.defs DerivedWeek.defs subScores_def)

lemma js_le_valueOrZero: "js_le (valueOrZero v) c = atMost v c"
proof (cases v)
  case None
  then show ?thesis by (simp add: valueOrZero_def)
next
  case (Some n)
  then show ?thesis by (cases n) (simp_all add: valueOrZero_def)
qed

lemma streaks_deriveWeek:
  "sleepStreak (snd (deriveWeek st e)) = (if lowSleep e then sleepStreak st + 1 else 0)"
  "contactStreak (snd (deriveWeek st e)) = (if noContact e then contactStreak st + 1 else 0)"
  "noIncomeStreak (snd (deriveWeek st e)) = (if noIncomeWeek e then noIncomeStreak st + 1 else 0)"
  by (simp_all add: deriveWeek_def Let_def lowSleep_def noContact_def noIncomeWeek_def
        js_le_valueOrZero)

lemma autoFlags_deriveWeek:
  "sleep (autoFlags (fst (deriveWeek st e))) = (2 \<le> sleepStreak (snd (deriveWeek st e)))"
  "contacts (autoFlags (fst (deriveWeek st e))) = (2 \<le> contactStreak (snd (deriveWeek st e)))"
  "noIncome (autoFlags (fst (deriveWeek st e))) = (8 \<le> noIncomeStreak (snd (deriveWeek st e)))"
  by (simp_all add: deriveWeek_def Let_def WeekEntry.defs DerivedWeek.defs)

lemma overallRedFlag_deriveWeek:
  "overallRedFlag (fst (deriveWeek st e)) =
     (manualRedFlag e = Some True \<or> paymentRedFlag e = Some True
      \<or> sleep (autoFlags (fst (deriveWeek st e)))
      \<or> contacts (autoFlags (fst (deriveWeek st e)))
      \<or> noIncome (autoFlags (fst (deriveWeek st e))))"
  by (simp add: deriveWeek_def Let_def WeekEntry.defs DerivedWeek.defs)

lemma grade_deriveWeek:
  "grade (fst (deriveWeek st e)) =
     (if overallRedFlag (fst (deriveWeek st e)) then C
      else if 13 \<le> totalScore (fst (deriveWeek st e)) then A
      else if 8 \<le> totalScore (fst (deriveWeek st e)) then B else C)"
  by (simp add: deriveWeek_def Let_def WeekEntry.defs DerivedWeek.defs)

lemma emojiLabel_deriveWeek:
  "emojiLabel (fst (deriveWeek st e)) = emojiMap (grade (fst (deriveWeek st e)))"
  by (simp add: deriveWeek_def Let_def WeekEntry.defs DerivedWeek.defs)

lemma redFlags_deriveWeek:
  "manualRedFlag (fst (deriveWeek st e)) = manualRedFlag e"
  "paymentRedFlag (fst (deriveWeek st e)) = paymentRedFlag e"
  by (simp_all add: deriveWeek_def Let_def WeekEntry.defs DerivedWeek.defs)

section \<open>Properties of the traversal\<close>

lemma length_mapWeeks: "length (mapWeeks st es) = length es"
  by (induction es arbitrary: st) (auto split: prod.splits)

lemma truncate_mapWeeks: "map WeekEntry.truncate (mapWeeks st es) = es"
proof (induction es arbitrary: st)
  case Nil
  show ?case by simp
next
  case (Cons e es)
  obtain d st' where ds: "deriveWeek st e = (d, st')" by (cases "deriveWeek st e")
  have "WeekEntry.truncate d = e" using truncate_deriveWeek [of st e] ds by simp
  then show ?case using Cons.IH [of st'] ds by simp
qed

lemma streaksAfter_snoc:
  "streaksAfter st (es @ [e]) = snd (deriveWeek (streaksAfter st es) e)"
  by (simp add: streaksAfter_def)

lemma mapWeeks_nth:
  "i < length es \<Longrightarrow>
     mapWeeks st es ! i = fst (deriveWeek (streaksAfter st (take i es)) (es ! i))"
proof (induction es arbitrary: st i)
  case Nil
  then show ?case by simp
next
  case (Cons e es)
  obtain d st' where ds: "deriveWeek st e = (d, st')" by (cases "deriveWeek st e")
  show ?case
  proof (cases i)
    case 0
    then show ?thesis using ds by (simp add: streaksAfter_def)
  next
    case (Suc j)
    then have "j < length es" using Cons.prems by simp
    from Cons.IH [OF this, of st'] show ?thesis
      using Suc ds by (simp add: streaksAfter_def)
  qed
qed

lemma mapWeeks_set:
  assumes "d \<in> set (mapWeeks st es)"
  shows "\<exists>st' e. e \<in> set es \<and> d = fst (deriveWeek st' e)"
proof -
  from assms obtain i where i: "i < length es" and d: "d = mapWeeks st es ! i"
    by (auto simp: in_set_conv_nth length_mapWeeks)
  have "es ! i \<in> set es" using i by simp
  then show ?thesis using d mapWeeks_nth [OF i, of st] by blast
qed

lemma counter_snoc: "counter P c (xs @ [x]) = (if P x then counter P c xs + 1 else 0)"
  by (induction xs arbitrary: c) auto

lemma counter_zero_run: "counter P 0 xs = length (takeWhile P (rev xs))"
proof (induction xs rule: rev_induct)
  case Nil
  show ?case by simp
next
  case (snoc x xs)
  then show ?case by (simp add: counter_snoc)
qed

lemma streaksAfter_counters:
  "sleepStreak (streaksAfter st es) = counter lowSleep (sleepStreak st) es"
  "contactStreak (streaksAfter st es) = counter noContact (contactStreak st) es"
  "noIncomeStreak (streaksAfter st es) = counter noIncomeWeek (noIncomeStreak st) es"
  unfolding streaksAfter_def
  by (induction es arbitrary: st) (simp_all add: streaks_deriveWeek)

lemma flags_nth:
  assumes "i < length es"
  shows "sleep (autoFlags (mapWeeks st es ! i)) =
           (2 \<le> counter lowSleep (sleepStreak st) (take (Suc i) es))"
    and "contacts (autoFlags (mapWeeks st es ! i)) =
           (2 \<le> counter noContact (contactStreak st) (take (Suc i) es))"
    and "noIncome (autoFlags (mapWeeks st es ! i)) =
           (8 \<le> counter noIncomeWeek (noIncomeStreak st) (take (Suc i) es))"
proof -
  have tk: "take (Suc i) es = take i es @ [es ! i]"
    using assms by (simp add: take_Suc_conv_app_nth)
  have st: "snd (deriveWeek (streaksAfter st (take i es)) (es ! i))
              = streaksAfter st (take (Suc i) es)"
    by (simp add: tk streaksAfter_snoc)
  show "sleep (autoFlags (mapWeeks st es ! i)) =
           (2 \<le> counter lowSleep (sleepStreak st) (take (Suc i) es))"
    by (simp only: mapWeeks_nth [OF assms] autoFlags_deriveWeek st streaksAfter_counters)
  show "contacts (autoFlags (mapWeeks st es ! i)) =
           (2 \<le> counter noContact (contactStreak st) (take (Suc i) es))"
    by (simp only: mapWeeks_nth [OF assms] autoFlags_deriveWeek st streaksAfter_counters)
  show "noIncome (autoFlags (mapWeeks st es ! i)) =
           (8 \<le> counter noIncomeWeek (noIncomeStreak st) (take (Suc i) es))"
    by (simp only: mapWeeks_nth [OF assms] autoFlags_deriveWeek st streaksAfter_counters)
qed

section \<open>Properties of the ordering\<close>

lemma mset_insertEntry: "mset (insertEntry h a bs) = add_mset a (mset bs)"
  by (induction bs) auto

lemma mset_sortEntries: "mset (sortEntries h es) = mset es"
  by (induction es) (auto simp: sortEntries_def mset_insertEntry)

lemma length_sortEntries: "length (sortEntries h es) = length es"
  using mset_sortEntries [of h es] by (metis size_mset)

lemma set_sortEntries: "set (sortEntries h es) = set es"
  using mset_sortEntries [of h es] by (metis set_mset_mset)

section \<open>The derived weeks keep the entries\<close>

text \<open>
  Claim C8. The derivation returns one record for each entry of its input, in the order of
  the sort. Cutting a derived record back to the fields of a week entry (the week start,
  the nine numeric metrics, the two red flags, the notes) gives the entry at the same
  position of the sorted input, so no entry is altered, dropped or added.
\<close>

theorem derive_preserves_entries:
  "length (computeDerivedWeeks h entries) = length entries
   \<and> map WeekEntry.truncate (computeDerivedWeeks h entries) = sortEntries h entries
   \<and> mset (map WeekEntry.truncate (computeDerivedWeeks h entries)) = mset entries"
  by (simp add: computeDerivedWeeks_def length_mapWeeks truncate_mapWeeks
        length_sortEntries mset_sortEntries)

lemma subScore_bounds:
  "0 \<le> scoreRules_deepWorkH v \<and> scoreRules_deepWorkH v \<le> 2"
  "0 \<le> scoreRules_playH v \<and> scoreRules_playH v \<le> 2"
  "0 \<le> scoreRules_realContactsPerWeek v \<and> scoreRules_realContactsPerWeek v \<le> 2"
  "0 \<le> scoreRules_sleepScore v \<and> scoreRules_sleepScore v \<le> 2"
  "0 \<le> scoreRules_alcoholDeviationPerWeek v \<and> scoreRules_alcoholDeviationPerWeek v \<le> 2"
  "0 \<le> scoreRules_avgStepsPerDay v \<and> scoreRules_avgStepsPerDay v \<le> 2"
  "0 \<le> scoreRules_emergencyFundMonths v \<and> scoreRules_emergencyFundMonths v \<le> 2"
  "0 \<le> scoreRules_pipelineActionsPerWeek v \<and> scoreRules_pipelineActionsPerWeek v \<le> 2"
  by (simp_all add: scoreRules_deepWorkH_def scoreRules_playH_def
        scoreRules_realContactsPerWeek_def scoreRules_sleepScore_def
        scoreRules_alcoholDeviationPerWeek_def scoreRules_avgStepsPerDay_def
        scoreRules_emergencyFundMonths_def scoreRules_pipelineActionsPerWeek_def)

lemma totalScore_bounds:
  "0 \<le> totalScore (fst (deriveWeek st e)) \<and> totalScore (fst (deriveWeek st e)) \<le> 16"
proof -
  have "0 \<le> sum_list (subScores e) \<and> sum_list (subScores e) \<le> 16"
    unfolding subScores_def
    using subScore_bounds(1) [of "valueOrZero (deepWorkH e)"]
      subScore_bounds(2) [of "valueOrZero (playH e)"]
      subScore_bounds(3) [of "valueOrZero (realContactsPerWeek e)"]
      subScore_bounds(4) [of "valueOrZero (sleepScore e)"]
      subScore_bounds(5) [of "valueOrZero (alcoholDeviationPerWeek e)"]
      subScore_bounds(6) [of "valueOrZero (avgStepsPerDay e)"]
      subScore_bounds(7) [of "valueOrZero (emergencyFundMonths e)"]
      subScore_bounds(8) [of "valueOrZero (pipelineActionsPerWeek e)"]
    by simp
  then show ?thesis by (simp add: totalScore_deriveWeek)
qed

lemma mapWeeks_single: "mapWeeks st [e] = [fst (deriveWeek st e)]"
  by (cases "deriveWeek st e") simp

section \<open>Total score, red flag, grade and label\<close>

text \<open>
  Claim C2. Every derived week has a total score between 0 and 16; its overall red flag
  is set exactly when the manual flag, the payment flag or one of the three automatic
  flags is set; its grade is A exactly for a score of at least 13 without red flag, B
  exactly for a score from 8 to 12 without red flag, and C otherwise; the label is the
  one of the grade, hence the one of grade C whenever the red flag is set.
\<close>

theorem grade_and_red_flag:
  "\<forall>d \<in> set (computeDerivedWeeks h entries).
      0 \<le> totalScore d \<and> totalScore d \<le> 16
    \<and> (overallRedFlag d \<longleftrightarrow>
          manualRedFlag d = Some True \<or> paymentRedFlag d = Some True
          \<or> sleep (autoFlags d) \<or> contacts (autoFlags d) \<or> noIncome (autoFlags d))
    \<and> (grade d = A \<longleftrightarrow> 13 \<le> totalScore d \<and> \<not> overallRedFlag d)
    \<and> (grade d = B \<longleftrightarrow> 8 \<le> totalScore d \<and> totalScore d < 13 \<and> \<not> overallRedFlag d)
    \<and> (grade d = C \<longleftrightarrow> totalScore d < 8 \<or> overallRedFlag d)
    \<and> emojiLabel d = emojiMap (grade d)
    \<and> (overallRedFlag d \<longrightarrow> emojiLabel d = emojiMap C)"
proof
  fix d
  assume "d \<in> set (computeDerivedWeeks h entries)"
  then obtain st e where d: "d = fst (deriveWeek st e)"
    unfolding computeDerivedWeeks_def using mapWeeks_set by blast
  have g: "grade d = (if overallRedFlag d then C else if 13 \<le> totalScore d then A
                      else if 8 \<le> totalScore d then B else C)"
    unfolding d by (rule grade_deriveWeek)
  have b: "0 \<le> totalScore d \<and> totalScore d \<le> 16"
    unfolding d by (rule totalScore_bounds)
  have r: "overallRedFlag d \<longleftrightarrow>
          manualRedFlag d = Some True \<or> paymentRedFlag d = Some True
          \<or> sleep (autoFlags d) \<or> contacts (autoFlags d) \<or> noIncome (autoFlags d)"
    unfolding d using overallRedFlag_deriveWeek [of st e] by (simp add: redFlags_deriveWeek)
  have l: "emojiLabel d = emojiMap (grade d)"
    unfolding d by (rule emojiLabel_deriveWeek)
  have gA: "grade d = A \<longleftrightarrow> 13 \<le> totalScore d \<and> \<not> overallRedFlag d"
    using g by auto
  have gB: "grade d = B \<longleftrightarrow> 8 \<le> totalScore d \<and> totalScore d < 13 \<and> \<not> overallRedFlag d"
    using g by auto
  have gC: "grade d = C \<longleftrightarrow> totalScore d < 8 \<or> overallRedFlag d"
    using g by auto
  have lC: "overallRedFlag d \<longrightarrow> emojiLabel d = emojiMap C"
    using g l by simp
  from b r gA gB gC l lC
  show "0 \<le> totalScore d \<and> totalScore d \<le> 16
    \<and> (overallRedFlag d \<longleftrightarrow>
          manualRedFlag d = Some True \<or> paymentRedFlag d = Some True
          \<or> sleep (autoFlags d) \<or> contacts (autoFlags d) \<or> noIncome (autoFlags d))
    \<and> (grade d = A \<longleftrightarrow> 13 \<le> totalScore d \<and> \<not> overallRedFlag d)
    \<and> (grade d = B \<longleftrightarrow> 8 \<le> totalScore d \<and> totalScore d < 13 \<and> \<not> overallRedFlag d)
    \<and> (grade d = C \<longleftrightarrow> totalScore d < 8 \<or> overallRedFlag d)
    \<and> emojiLabel d = emojiMap (grade d)
    \<and> (overallRedFlag d \<longrightarrow> emojiLabel d = emojiMap C)"
    by blast
qed

text \<open>A week with every metric in the top tier and the payment flag set: 16 points, grade C.\<close>

theorem grade_and_red_flag_witness:
  "fst (deriveWeek \<lparr>sleepStreak = 0, contactStreak = 0, noIncomeStreak = 0\<rparr> flaggedWeek)
     \<in> set (computeDerivedWeeks asciiHost [flaggedWeek])
   \<and> totalScore (fst (deriveWeek \<lparr>sleepStreak = 0, contactStreak = 0, noIncomeStreak = 0\<rparr> flaggedWeek)) = 16
   \<and> overallRedFlag (fst (deriveWeek \<lparr>sleepStreak = 0, contactStreak = 0, noIncomeStreak = 0\<rparr> flaggedWeek))
   \<and> grade (fst (deriveWeek \<lparr>sleepStreak = 0, contactStreak = 0, noIncomeStreak = 0\<rparr> flaggedWeek)) = C
   \<and> emojiLabel (fst (deriveWeek \<lparr>sleepStreak = 0, contactStreak = 0, noIncomeStreak = 0\<rparr> flaggedWeek)) = emojiMap C"
proof -
  let ?d = "fst (deriveWeek \<lparr>sleepStreak = 0, contactStreak = 0, noIncomeStreak = 0\<rparr> flaggedWeek)"
  have m: "?d \<in> set (computeDerivedWeeks asciiHost [flaggedWeek])"
    by (simp add: computeDerivedWeeks_def sortEntries_def mapWeeks_single del: mapWeeks.simps)
  have t: "totalScore ?d = 16" by code_simp
  have p: "paymentRedFlag ?d = Some True" by code_simp
  from grade_and_red_flag [of asciiHost "[flaggedWeek]"] m
  have "(overallRedFlag ?d \<longleftrightarrow>
          manualRedFlag ?d = Some True \<or> paymentRedFlag ?d = Some True
          \<or> sleep (autoFlags ?d) \<or> contacts (autoFlags ?d) \<or> noIncome (autoFlags ?d))
    \<and> (grade ?d = C \<longleftrightarrow> totalScore ?d < 8 \<or> overallRedFlag ?d)
    \<and> (overallRedFlag ?d \<longrightarrow> emojiLabel ?d = emojiMap C)"
    by blast
  with m t p show ?thesis by blast
qed




section \<open>The scoring table\<close>


lemma set_insertEntry: "set (insertEntry h a bs) = insert a (set bs)"
  by (induction bs) auto

lemma hostLe_total: "consistentComparator h \<Longrightarrow> \<not> hostLe h a b \<Longrightarrow> hostLe h b a"
  unfolding consistentComparator_def hostLe_def by blast

lemma hostLe_refl: "consistentComparator h \<Longrightarrow> hostLe h a a"
  unfolding consistentComparator_def hostLe_def by blast

lemma hostLe_trans:
  "consistentComparator h \<Longrightarrow> hostLe h a b \<Longrightarrow> hostLe h b c \<Longrightarrow> hostLe h a c"
  unfolding consistentComparator_def hostLe_def by blast

lemma insertEntry_hostLe:
  "insertEntry h a (b # bs) = (if hostLe h a b then a # b # bs else b # insertEntry h a bs)"
  by (simp add: hostLe_def)

lemma sorted_insertEntry:
  assumes "consistentComparator h" and "sorted_wrt (hostLe h) bs"
  shows "sorted_wrt (hostLe h) (insertEntry h a bs)"
  using assms(2)
proof (induction bs)
  case Nil
  show ?case by simp
next
  case (Cons b bs)
  show ?case
  proof (cases "hostLe h a b")
    case True
    have "\<forall>x \<in> set bs. hostLe h a x"
      using Cons.prems True hostLe_trans [OF assms(1)] by auto
    then show ?thesis using True Cons.prems by (simp add: insertEntry_hostLe del: insertEntry.simps)
  next
    case False
    then have "hostLe h b a" by (rule hostLe_total [OF assms(1)])
    then show ?thesis
      using False Cons by (auto simp: insertEntry_hostLe set_insertEntry simp del: insertEntry.simps)
  qed
qed

lemma sorted_sortEntries:
  "consistentComparator h \<Longrightarrow> sorted_wrt (hostLe h) (sortEntries h es)"
  by (induction es) (simp_all add: sortEntries_def sorted_insertEntry)

lemma insertEntry_front: "\<forall>b \<in> set bs. hostLe h a b \<Longrightarrow> insertEntry h a bs = a # bs"
  by (cases bs) (simp_all add: insertEntry_hostLe del: insertEntry.simps(2))

lemma sortEntries_Cons: "sortEntries h (e # es) = insertEntry h e (sortEntries h es)"
  by (simp add: sortEntries_def)

lemma sortEntries_sorted_id: "sorted_wrt (hostLe h) es \<Longrightarrow> sortEntries h es = es"
proof (induction es)
  case Nil
  show ?case by (simp add: sortEntries_def)
next
  case (Cons e es)
  then show ?case by (simp add: sortEntries_Cons insertEntry_front)
qed

lemma sortEntries_idem:
  "consistentComparator h \<Longrightarrow> sortEntries h (sortEntries h es) = sortEntries h es"
  by (simp add: sortEntries_sorted_id sorted_sortEntries)

section \<open>The concrete host\<close>

lemma caselessCompare_le:
  "caselessCompare s t \<le> 0 \<longleftrightarrow> codeUnits (asciiLower s) \<le> codeUnits (asciiLower t)"
  by (auto simp: caselessCompare_def Let_def)

lemma consistent_asciiHost: "consistentComparator asciiHost"
  unfolding consistentComparator_def
  by (auto simp: asciiHost_def caselessCompare_le)

lemma computeDerivedWeeks_explicit:
  "computeDerivedWeeks h entries =
     map (\<lambda>i. fst (deriveWeek
                  (streaksAfter \<lparr>sleepStreak = 0, contactStreak = 0, noIncomeStreak = 0\<rparr>
                     (take i (sortEntries h entries)))
                  (sortEntries h entries ! i)))
         [0..<length entries]"
  unfolding computeDerivedWeeks_def
  by (rule nth_equalityI) (simp_all add: length_mapWeeks length_sortEntries mapWeeks_nth)

section \<open>Order and repeated derivation\<close>

text \<open>
  Claim C6. The three counters are local to a call and start at 0: every derived week
  is computed from the sorted input alone, from the counters that the weeks before it
  leave when started at 0, so two runs on one input give the same sequence and nothing
  is carried from one run to the next. On an input that is already in the order of the
  sort, the derived records stand in the order of the input. For a consistent
  comparison, sorting first changes nothing, and deriving again from the entries of a
  derived sequence gives that sequence again.
\<close>

theorem derive_keeps_sorted_order:
  "computeDerivedWeeks h entries =
     map (\<lambda>i. fst (deriveWeek
                  (streaksAfter \<lparr>sleepStreak = 0, contactStreak = 0, noIncomeStreak = 0\<rparr>
                     (take i (sortEntries h entries)))
                  (sortEntries h entries ! i)))
         [0..<length entries]
   \<and> (sorted_wrt (hostLe h) entries \<longrightarrow>
      map WeekEntry.truncate (computeDerivedWeeks h entries) = entries)
   \<and> (consistentComparator h \<longrightarrow>
      computeDerivedWeeks h (sortEntries h entries) = computeDerivedWeeks h entries
      \<and> computeDerivedWeeks h (map WeekEntry.truncate (computeDerivedWeeks h entries))
          = computeDerivedWeeks h entries)"
proof (intro conjI impI)
  show "computeDerivedWeeks h entries =
     map (\<lambda>i. fst (deriveWeek
                  (streaksAfter \<lparr>sleepStreak = 0, contactStreak = 0, noIncomeStreak = 0\<rparr>
                     (take i (sortEntries h entries)))
                  (sortEntries h entries ! i)))
         [0..<length entries]"
    by (rule computeDerivedWeeks_explicit)
next
  assume "sorted_wrt (hostLe h) entries"
  then show "map WeekEntry.truncate (computeDerivedWeeks h entries) = entries"
    by (simp add: computeDerivedWeeks_def truncate_mapWeeks sortEntries_sorted_id)
next
  assume c: "consistentComparator h"
  show "computeDerivedWeeks h (sortEntries h entries) = computeDerivedWeeks h entries"
    by (simp add: computeDerivedWeeks_def sortEntries_idem [OF c])
  show "computeDerivedWeeks h (map WeekEntry.truncate (computeDerivedWeeks h entries))
          = computeDerivedWeeks h entries"
    by (simp add: computeDerivedWeeks_def truncate_mapWeeks sortEntries_idem [OF c])
qed

theorem derive_keeps_sorted_order_witness:
  "sorted_wrt (hostLe asciiHost) weeks8 \<and> consistentComparator asciiHost
   \<and> map WeekEntry.truncate (computeDerivedWeeks asciiHost weeks8) = weeks8
   \<and> computeDerivedWeeks asciiHost (sortEntries asciiHost (rev weeks8))
       = computeDerivedWeeks asciiHost (rev weeks8)"
proof -
  have s: "sorted_wrt (hostLe asciiHost) weeks8" by code_simp
  from derive_keeps_sorted_order [of asciiHost weeks8]
       derive_keeps_sorted_order [of asciiHost "rev weeks8"] s consistent_asciiHost
  show ?thesis by blast
qed

lemma sameRank_hostLe: "sameRank h x e = (hostLe h e x \<and> hostLe h x e)"
  by (simp add: sameRank_def hostLe_def)

lemma filter_insertEntry_other:
  "\<not> P a \<Longrightarrow> filter P (insertEntry h a bs) = filter P bs"
  by (induction bs) simp_all

lemma filter_insertEntry_sameRank:
  assumes c: "consistentComparator h" and a: "sameRank h x a"
  shows "filter (sameRank h x) (insertEntry h a bs) = a # filter (sameRank h x) bs"
proof (induction bs)
  case Nil
  show ?case using a by simp
next
  case (Cons b bs)
  show ?case
  proof (cases "hostLe h a b")
    case True
    then show ?thesis using a by (simp add: insertEntry_hostLe del: insertEntry.simps)
  next
    case False
    have "\<not> sameRank h x b"
    proof
      assume "sameRank h x b"
      then have "hostLe h x b" by (simp add: sameRank_hostLe)
      moreover have "hostLe h a x" using a by (simp add: sameRank_hostLe)
      ultimately have "hostLe h a b" using hostLe_trans [OF c] by blast
      with False show False by simp
    qed
    then show ?thesis
      using False Cons.IH by (simp add: insertEntry_hostLe del: insertEntry.simps)
  qed
qed

lemma sortEntries_stable:
  assumes c: "consistentComparator h"
  shows "filter (sameRank h x) (sortEntries h es) = filter (sameRank h x) es"
proof (induction es)
  case Nil
  show ?case by (simp add: sortEntries_def)
next
  case (Cons e es)
  show ?case
  proof (cases "sameRank h x e")
    case True
    then show ?thesis
      using Cons.IH by (simp add: sortEntries_Cons filter_insertEntry_sameRank [OF c])
  next
    case False
    then show ?thesis
      using Cons.IH by (simp add: sortEntries_Cons filter_insertEntry_other)
  qed
qed

section \<open>The streak flags\<close>

text \<open>
  Claim C1. The derivation processes the entries in sorted order: the sort returns the
  entries of the input, and for a consistent comparison they are in ascending order of
  the week starts, entries that compare equal in their input order. On that order, each
  automatic flag of a week is set exactly when the run of weeks that fail its condition,
  ending with that week, has reached the threshold of the flag: a sleep score of at most
  4 for 2 weeks, real contacts of at most 0 for 2 weeks, an income of at most 0 for 8
  weeks, an absent value counting as zero. The counters after a week are the lengths of
  these runs, so each is back at 0 on the first week that does not fail.
\<close>

theorem streak_flags_are_run_lengths:
  assumes "i < length entries"
  shows "(sleep (autoFlags (computeDerivedWeeks h entries ! i))
            \<longleftrightarrow> 2 \<le> runLength lowSleep (sortEntries h entries) i)
       \<and> (contacts (autoFlags (computeDerivedWeeks h entries ! i))
            \<longleftrightarrow> 2 \<le> runLength noContact (sortEntries h entries) i)
       \<and> (noIncome (autoFlags (computeDerivedWeeks h entries ! i))
            \<longleftrightarrow> 8 \<le> runLength noIncomeWeek (sortEntries h entries) i)
       \<and> streaksAfter \<lparr>sleepStreak = 0, contactStreak = 0, noIncomeStreak = 0\<rparr>
            (take (Suc i) (sortEntries h entries))
          = \<lparr>sleepStreak = runLength lowSleep (sortEntries h entries) i,
             contactStreak = runLength noContact (sortEntries h entries) i,
             noIncomeStreak = runLength noIncomeWeek (sortEntries h entries) i\<rparr>
       \<and> mset (sortEntries h entries) = mset entries
       \<and> (consistentComparator h \<longrightarrow>
             sorted_wrt (hostLe h) (sortEntries h entries)
           \<and> filter (sameRank h x) (sortEntries h entries) = filter (sameRank h x) entries)"
proof -
  have i: "i < length (sortEntries h entries)"
    using assms by (simp add: length_sortEntries)
  have flags: "(sleep (autoFlags (computeDerivedWeeks h entries ! i))
            \<longleftrightarrow> 2 \<le> runLength lowSleep (sortEntries h entries) i)
       \<and> (contacts (autoFlags (computeDerivedWeeks h entries ! i))
            \<longleftrightarrow> 2 \<le> runLength noContact (sortEntries h entries) i)
       \<and> (noIncome (autoFlags (computeDerivedWeeks h entries ! i))
            \<longleftrightarrow> 8 \<le> runLength noIncomeWeek (sortEntries h entries) i)
       \<and> streaksAfter \<lparr>sleepStreak = 0, contactStreak = 0, noIncomeStreak = 0\<rparr>
            (take (Suc i) (sortEntries h entries))
          = \<lparr>sleepStreak = runLength lowSleep (sortEntries h entries) i,
             contactStreak = runLength noContact (sortEntries h entries) i,
             noIncomeStreak = runLength noIncomeWeek (sortEntries h entries) i\<rparr>"
    unfolding computeDerivedWeeks_def runLength_def
    by (simp add: flags_nth [OF i] counter_zero_run [symmetric] streaksAfter_counters)
  have order: "consistentComparator h \<longrightarrow>
             sorted_wrt (hostLe h) (sortEntries h entries)
           \<and> filter (sameRank h x) (sortEntries h entries) = filter (sameRank h x) entries"
    by (simp add: sorted_sortEntries sortEntries_stable)
  from flags order mset_sortEntries [of h entries] show ?thesis by blast
qed

text \<open>
  Four weeks given out of order, with sleep scores 3, 9, absent and 4 in date order: only
  the fourth is flagged for sleep, the absent score counting as low and the 9 resetting
  the counter. Of eight weeks without income the eighth is flagged, the seventh is not.
\<close>

theorem streak_flags_witness:
  "3 < length weeksMixed \<and> consistentComparator asciiHost
   \<and> sortEntries asciiHost weeksMixed
       = [week ''2024-01-01'' (Some (Num 3)) (Some (Num 1000)),
          week ''2024-01-08'' (Some (Num 9)) (Some (Num 0)),
          week ''2024-01-15'' None (Some (Num 1000)),
          week ''2024-01-22'' (Some (Num 4)) None]
   \<and> \<not> sleep (autoFlags (computeDerivedWeeks asciiHost weeksMixed ! 0))
   \<and> \<not> sleep (autoFlags (computeDerivedWeeks asciiHost weeksMixed ! 1))
   \<and> \<not> sleep (autoFlags (computeDerivedWeeks asciiHost weeksMixed ! 2))
   \<and> sleep (autoFlags (computeDerivedWeeks asciiHost weeksMixed ! 3))
   \<and> contacts (autoFlags (computeDerivedWeeks asciiHost weeksMixed ! 1))
   \<and> \<not> noIncome (autoFlags (computeDerivedWeeks asciiHost weeksMixed ! 3))
   \<and> noIncome (autoFlags (computeDerivedWeeks asciiHost weeks8 ! 7))
   \<and> \<not> noIncome (autoFlags (computeDerivedWeeks asciiHost weeks8 ! 6))
   \<and> sorted_wrt (hostLe asciiHost) (sortEntries asciiHost weeksMixed)"
proof -
  have s: "sortEntries asciiHost weeksMixed
       = [week ''2024-01-01'' (Some (Num 3)) (Some (Num 1000)),
          week ''2024-01-08'' (Some (Num 9)) (Some (Num 0)),
          week ''2024-01-15'' None (Some (Num 1000)),
          week ''2024-01-22'' (Some (Num 4)) None]" by code_simp
  have l0: "0 < length weeksMixed" and l1: "1 < length weeksMixed"
    and l2: "2 < length weeksMixed" and l3: "3 < length weeksMixed"
    by (simp_all add: weeksMixed_def)
  have len7: "7 < length weeks8" and len6: "6 < length weeks8" by (simp_all add: weeks8_def)
  have r0: "runLength lowSleep (sortEntries asciiHost weeksMixed) 0 = 1" by code_simp
  have r1: "runLength lowSleep (sortEntries asciiHost weeksMixed) 1 = 0" by code_simp
  have r2: "runLength lowSleep (sortEntries asciiHost weeksMixed) 2 = 1" by code_simp
  have r3: "runLength lowSleep (sortEntries asciiHost weeksMixed) 3 = 2" by code_simp
  have c1: "runLength noContact (sortEntries asciiHost weeksMixed) 1 = 2" by code_simp
  have n3: "runLength noIncomeWeek (sortEntries asciiHost weeksMixed) 3 = 1" by code_simp
  have run7: "runLength noIncomeWeek (sortEntries asciiHost weeks8) 7 = 8" by code_simp
  have run6: "runLength noIncomeWeek (sortEntries asciiHost weeks8) 6 = 7" by code_simp
  from streak_flags_are_run_lengths [OF l0, of asciiHost]
       streak_flags_are_run_lengths [OF l1, of asciiHost]
       streak_flags_are_run_lengths [OF l2, of asciiHost]
       streak_flags_are_run_lengths [OF l3, of asciiHost]
       streak_flags_are_run_lengths [OF len7, of asciiHost]
       streak_flags_are_run_lengths [OF len6, of asciiHost]
       r0 r1 r2 r3 c1 n3 run7 run6 l3 consistent_asciiHost s
  show ?thesis by simp
qed

section \<open>Properties of the sanitizer\<close>

lemma typeof_string: "typeof v = ''string'' \<longleftrightarrow> (\<exists>s. v = JString s)"
  by (cases v) simp_all

lemma parseLoop_step:
  "parseLoop h acc (item # rest) =
     (if accepted item then parseLoop h (acc @ [sanitizeEntry h item]) rest else None)"
proof (cases "getProp item ''weekStart''")
  case (JString s)
  then show ?thesis by (simp add: accepted_def sanitizeEntry_def)
qed (simp_all add: accepted_def)

lemma parseLoop_char:
  "parseLoop h acc items =
     (if list_all accepted items then Some (acc @ map (sanitizeEntry h) items) else None)"
proof (induction items arbitrary: acc)
  case Nil
  show ?case by simp
next
  case (Cons item rest)
  show ?case by (simp only: parseLoop_step Cons.IH) simp
qed

lemma parseStoredEntries_array:
  "parseStoredEntries h (JArray items) =
     (if list_all accepted items then Some (sortEntries h (map (sanitizeEntry h) items))
      else None)"
  by (simp add: parseStoredEntries_def parseLoop_char)

lemma parseStoredEntries_not_array: "\<not> isArray raw \<Longrightarrow> parseStoredEntries h raw = None"
  by (cases raw) (simp_all add: parseStoredEntries_def)

lemma sorted_wrt_agree:
  "sorted_wrt P xs \<Longrightarrow> \<forall>a \<in> set xs. \<forall>b \<in> set xs. P a b \<longrightarrow> Q a b \<Longrightarrow> sorted_wrt Q xs"
  by (induction xs) auto

section \<open>Rejection and order of the sanitized batch\<close>

text \<open>
  Claim C4, amended. The sanitizer rejects exactly when its input is not an array, or an
  item is not a structured record, or the week start of an item is not a string; it
  rejects for no other reason. On success it returns the whole batch, one entry for each
  item, in the order of the host's \<open>localeCompare\<close> on the week starts (for a consistent
  comparison); that order is the lexicographic one whenever the comparison agrees with
  lexicographic comparison on the week starts of the batch.
\<close>

theorem sanitize_rejection_and_order:
  "(\<not> isArray raw \<longrightarrow> parseStoredEntries h raw = None)
   \<and> (parseStoredEntries h (JArray items) = None \<longleftrightarrow>
        (\<exists>item \<in> set items.
            \<not> (Boolean item \<and> typeof item = ''object'')
            \<or> typeof (getProp item ''weekStart'') \<noteq> ''string''))
   \<and> (parseStoredEntries h (JArray items) = Some out \<longrightarrow>
         length out = length items
       \<and> mset out = mset (map (sanitizeEntry h) items)
       \<and> (consistentComparator h \<longrightarrow>
             sorted_wrt (hostLe h) out
           \<and> ((\<forall>a \<in> set out. \<forall>b \<in> set out. hostLe h a b \<longrightarrow> lexLe a b)
                \<longrightarrow> sorted_wrt lexLe out)))"
proof (intro conjI impI)
  assume "\<not> isArray raw"
  then show "parseStoredEntries h raw = None" by (rule parseStoredEntries_not_array)
next
  show "parseStoredEntries h (JArray items) = None \<longleftrightarrow>
        (\<exists>item \<in> set items.
            \<not> (Boolean item \<and> typeof item = ''object'')
            \<or> typeof (getProp item ''weekStart'') \<noteq> ''string'')"
    by (auto simp: parseStoredEntries_array list_all_iff accepted_def)
next
  assume s: "parseStoredEntries h (JArray items) = Some out"
  then have out: "out = sortEntries h (map (sanitizeEntry h) items)"
    by (simp add: parseStoredEntries_array split: if_splits)
  show "length out = length items" by (simp add: out length_sortEntries)
  show "mset out = mset (map (sanitizeEntry h) items)" by (simp add: out mset_sortEntries)
  assume c: "consistentComparator h"
  show so: "sorted_wrt (hostLe h) out" unfolding out using c by (rule sorted_sortEntries)
  assume "\<forall>a \<in> set out. \<forall>b \<in> set out. hostLe h a b \<longrightarrow> lexLe a b"
  with so show "sorted_wrt lexLe out" by (rule sorted_wrt_agree)
qed

text \<open>A value that is no array is rejected; two items with ISO dates come back in date order.\<close>

theorem sanitize_rejection_and_order_witness:
  "\<not> isArray (JObject []) \<and> parseStoredEntries asciiHost (JObject []) = None
   \<and> parseStoredEntries asciiHost batchIso
       = Some [sanitizeItem asciiHost (JObject [(''weekStart'', JString ''2024-01-01''), (''notes'', JNumber (Num 1))]) ''2024-01-01'',
               sanitizeItem asciiHost (JObject [(''weekStart'', JString ''2024-01-08''), (''sleepScore'', JString '' 7 '')]) ''2024-01-08'']
   \<and> consistentComparator asciiHost
   \<and> sorted_wrt lexLe
        [sanitizeItem asciiHost (JObject [(''weekStart'', JString ''2024-01-01''), (''notes'', JNumber (Num 1))]) ''2024-01-01'',
         sanitizeItem asciiHost (JObject [(''weekStart'', JString ''2024-01-08''), (''sleepScore'', JString '' 7 '')]) ''2024-01-08'']"
proof -
  let ?out = "[sanitizeItem asciiHost (JObject [(''weekStart'', JString ''2024-01-01''), (''notes'', JNumber (Num 1))]) ''2024-01-01'',
               sanitizeItem asciiHost (JObject [(''weekStart'', JString ''2024-01-08''), (''sleepScore'', JString '' 7 '')]) ''2024-01-08'']"
  let ?items = "[JObject [(''weekStart'', JString ''2024-01-08''), (''sleepScore'', JString '' 7 '')],
             JObject [(''weekStart'', JString ''2024-01-01''), (''notes'', JNumber (Num 1))]]"
  have n: "\<not> isArray (JObject [])" by simp
  have p: "parseStoredEntries asciiHost (JArray ?items) = Some ?out" by code_simp
  have a: "\<forall>a \<in> set ?out. \<forall>b \<in> set ?out. hostLe asciiHost a b \<longrightarrow> lexLe a b"
    by code_simp
  from sanitize_rejection_and_order [of "JObject []" asciiHost ?items ?out] n p a
       consistent_asciiHost
  show ?thesis unfolding batchIso_def by blast
qed

text \<open>
  The claim as stated, with lexicographic order for every batch, fails for the week
  starts "a" and "B": the comparison of the host puts "a" first, and lexicographic
  comparison puts "B" first.
\<close>

theorem sanitize_order_counterexample:
  "parseStoredEntries asciiHost batchAB
     = Some [sanitizeItem asciiHost (JObject [(''weekStart'', JString ''a'')]) ''a'',
             sanitizeItem asciiHost (JObject [(''weekStart'', JString ''B'')]) ''B'']
   \<and> \<not> sorted_wrt lexLe
         [sanitizeItem asciiHost (JObject [(''weekStart'', JString ''a'')]) ''a'',
          sanitizeItem asciiHost (JObject [(''weekStart'', JString ''B'')]) ''B'']"
  by code_simp

lemma toNumericValue_coerce: "toNumericValue h v = coerceNumber h v"
proof (cases v)
  case (JNumber n)
  then show ?thesis by (cases n) (simp_all add: toNumericValue_def)
next
  case (JString s)
  then show ?thesis
    by (cases "Number h (trim h s)") (simp_all add: toNumericValue_def Let_def)
qed (simp_all add: toNumericValue_def)

lemma toBooleanValue_coerce: "toBooleanValue h v = coerceBoolean h v"
proof (cases v)
  case (JNumber n)
  then show ?thesis by (cases n) (simp_all add: toBooleanValue_def)
qed (simp_all add: toBooleanValue_def Let_def)

lemma notes_coerce: "(case v of JString s \<Rightarrow> s | _ \<Rightarrow> []) = coerceNotes v"
  by (cases v) simp_all

lemma stringOf_weekStartString: "stringOf v = weekStartString v"
  by (cases v) simp_all

lemma sanitizeEntry_coerce: "sanitizeEntry h item = coerceEntry h item"
  by (simp add: sanitizeEntry_def sanitizeItem_def coerceEntry_def toNumericValue_coerce
        toBooleanValue_coerce notes_coerce stringOf_weekStartString)

section \<open>Coercion of the fields\<close>

text \<open>
  Claim C5, amended. The sanitizer coerces as the case-by-case rules say. A finite
  number passes through, a number that is not finite becomes absent; a string is
  trimmed and converted, and passes through as the converted value only if the trimmed
  string is not empty and the value is finite; every other value becomes absent. A
  boolean passes through; a string that, once trimmed and put in lower case, is "true"
  or "false" gives that boolean; every other value, the other strings included, gives
  its own truthiness, which is false for \<open>undefined\<close> and \<open>null\<close>. The notes pass through
  if they are a string and become the empty string otherwise. A batch is accepted
  exactly when every item is a record with a string week start, whatever its other
  fields hold, and the entries returned are the items coerced field by field in this
  way, in the order of the sort.
\<close>

theorem field_coercions:
  "toNumericValue h v = coerceNumber h v
   \<and> toBooleanValue h v = coerceBoolean h v
   \<and> parseStoredEntries h (JArray items)
       = (if list_all accepted items
          then Some (sortEntries h (map (coerceEntry h) items)) else None)"
proof -
  have "sanitizeEntry h = coerceEntry h"
    by (rule ext) (rule sanitizeEntry_coerce)
  then show ?thesis
    by (simp only: parseStoredEntries_array toNumericValue_coerce toBooleanValue_coerce)
qed

text \<open>
  An item with malformed fields is accepted; each malformed field comes back absent,
  false or empty, the padded number as 7 and the padded "TRUE" as true.
\<close>

theorem field_coercions_witness:
  "list_all accepted [messyItem]
   \<and> parseStoredEntries asciiHost (JArray [messyItem])
       = Some [\<lparr>weekStart = ''2024-06-03'', deepWorkH = None, playH = None,
                realContactsPerWeek = None, sleepScore = Some (Num 7),
                alcoholDeviationPerWeek = None, avgStepsPerDay = Some (Num 7000),
                emergencyFundMonths = None, pipelineActionsPerWeek = None,
                incomeJPY = None, manualRedFlag = Some True,
                paymentRedFlag = Some False, notes' = Some []\<rparr>]"
proof -
  have a: "list_all accepted [messyItem]" by code_simp
  have c: "sortEntries asciiHost (map (coerceEntry asciiHost) [messyItem])
       = [\<lparr>weekStart = ''2024-06-03'', deepWorkH = None, playH = None,
                realContactsPerWeek = None, sleepScore = Some (Num 7),
                alcoholDeviationPerWeek = None, avgStepsPerDay = Some (Num 7000),
                emergencyFundMonths = None, pipelineActionsPerWeek = None,
                incomeJPY = None, manualRedFlag = Some True,
                paymentRedFlag = Some False, notes' = Some []\<rparr>]" by code_simp
  from field_coercions [of asciiHost JNull "[messyItem]"] a c show ?thesis by simp
qed

text \<open>
  The claim as stated, matching the string itself without regard to case, fails for the
  string " false ": it does not match, so its truthiness, true, would be the result, but
  the sanitizer trims it first and answers false.
\<close>

theorem boolean_coercion_counterexample:
  "toBooleanValue asciiHost (JString '' false '') = False
   \<and> spec_toBooleanValue asciiHost (JString '' false '') = True"
  by code_simp

section \<open>The persisted representation\<close>

lemma map_of_jsonField:
  "map_of (jsonField k f v) k' = (if k' = k then map_option f v else None)"
  by (cases v) (simp_all add: jsonField_def)

lemma getProp_weekStart: "getProp (jsonRoundTrip e) ''weekStart'' = JString (weekStart e)"
  by (simp add: jsonRoundTrip_def)

lemma getProp_jsonRoundTrip:
  "getProp (jsonRoundTrip e) ''deepWorkH''
     = (case deepWorkH e of None \<Rightarrow> JUndefined | Some n \<Rightarrow> jsonNumber n)"
  "getProp (jsonRoundTrip e) ''playH''
     = (case playH e of None \<Rightarrow> JUndefined | Some n \<Rightarrow> jsonNumber n)"
  "getProp (jsonRoundTrip e) ''realContactsPerWeek''
     = (case realContactsPerWeek e of None \<Rightarrow> JUndefined | Some n \<Rightarrow> jsonNumber n)"
  "getProp (jsonRoundTrip e) ''sleepScore''
     = (case sleepScore e of None \<Rightarrow> JUndefined | Some n \<Rightarrow> jsonNumber n)"
  "getProp (jsonRoundTrip e) ''alcoholDeviationPerWeek''
     = (case alcoholDeviationPerWeek e of None \<Rightarrow> JUndefined | Some n \<Rightarrow> jsonNumber n)"
  "getProp (jsonRoundTrip e) ''avgStepsPerDay''
     = (case avgStepsPerDay e of None \<Rightarrow> JUndefined | Some n \<Rightarrow> jsonNumber n)"
  "getProp (jsonRoundTrip e) ''emergencyFundMonths''
     = (case emergencyFundMonths e of None \<Rightarrow> JUndefined | Some n \<Rightarrow> jsonNumber n)"
  "getProp (jsonRoundTrip e) ''pipelineActionsPerWeek''
     = (case pipelineActionsPerWeek e of None \<Rightarrow> JUndefined | Some n \<Rightarrow> jsonNumber n)"
  "getProp (jsonRoundTrip e) ''incomeJPY''
     = (case incomeJPY e of None \<Rightarrow> JUndefined | Some n \<Rightarrow> jsonNumber n)"
  "getProp (jsonRoundTrip e) ''manualRedFlag''
     = (case manualRedFlag e of None \<Rightarrow> JUndefined | Some b \<Rightarrow> JBool b)"
  "getProp (jsonRoundTrip e) ''paymentRedFlag''
     = (case paymentRedFlag e of None \<Rightarrow> JUndefined | Some b \<Rightarrow> JBool b)"
  "getProp (jsonRoundTrip e) ''notes''
     = (case notes' e of None \<Rightarrow> JUndefined | Some s \<Rightarrow> JString s)"
  by (simp_all add: jsonRoundTrip_def map_add_def map_of_jsonField split: option.splits)

lemma toNumericValue_json:
  "finiteOrAbsent v \<Longrightarrow>
     toNumericValue h (case v of None \<Rightarrow> JUndefined | Some n \<Rightarrow> jsonNumber n) = v"
  by (cases v) (simp_all add: finiteOrAbsent_def toNumericValue_def jsonNumber_def)

lemma toBooleanValue_json:
  "toBooleanValue h (case v of None \<Rightarrow> JUndefined | Some b \<Rightarrow> JBool b)
     = (case v of None \<Rightarrow> False | Some b \<Rightarrow> b)"
  by (cases v) (simp_all add: toBooleanValue_def)

lemma notes_json:
  "(case (case v of None \<Rightarrow> JUndefined | Some s \<Rightarrow> JString s) of JString s \<Rightarrow> s | _ \<Rightarrow> [])
     = (case v of None \<Rightarrow> [] | Some s \<Rightarrow> s)"
  by (cases v) simp_all

lemma accepted_jsonRoundTrip: "accepted (jsonRoundTrip e)"
  unfolding accepted_def getProp_weekStart by (simp add: jsonRoundTrip_def)

lemma sanitizeEntry_jsonRoundTrip:
  assumes "validEntry e"
  shows "sanitizeEntry h (jsonRoundTrip e) = normalizeEntry e"
  using assms
  unfolding sanitizeEntry_def sanitizeItem_def getProp_weekStart getProp_jsonRoundTrip
    validEntry_def normalizeEntry_def
  by (simp add: toNumericValue_json toBooleanValue_json notes_json)

lemma insertEntry_map:
  assumes "\<And>e. weekStart (f e) = weekStart e"
  shows "insertEntry h (f a) (map f bs) = map f (insertEntry h a bs)"
  by (induction bs) (simp_all add: assms)

lemma sortEntries_map:
  assumes "\<And>e. weekStart (f e) = weekStart e"
  shows "sortEntries h (map f es) = map f (sortEntries h es)"
proof (induction es)
  case Nil
  show ?case by (simp add: sortEntries_def)
next
  case (Cons e es)
  then show ?case by (simp add: sortEntries_Cons insertEntry_map [of f, OF assms])
qed

lemma weekStart_normalizeEntry: "weekStart (normalizeEntry e) = weekStart e"
  by (simp add: normalizeEntry_def)

text \<open>
  Claim C7. For valid entries, sanitizing what the JSON round trip of the sequence gives
  returns the sorted sequence with its absent fields normalized: absent numbers stay
  absent, absent booleans become false, absent notes the empty string.
\<close>

theorem sanitize_round_trip:
  assumes "\<forall>e \<in> set entries. validEntry e"
  shows "parseStoredEntries h (JArray (map jsonRoundTrip entries))
           = Some (map normalizeEntry (sortEntries h entries))"
proof -
  have acc: "list_all accepted (map jsonRoundTrip entries)"
    by (simp add: list_all_iff accepted_jsonRoundTrip)
  have "map (sanitizeEntry h) (map jsonRoundTrip entries) = map normalizeEntry entries"
    using assms by (simp add: sanitizeEntry_jsonRoundTrip)
  then have "parseStoredEntries h (JArray (map jsonRoundTrip entries))
           = Some (sortEntries h (map normalizeEntry entries))"
    using acc by (simp only: parseStoredEntries_array if_True)
  then show ?thesis
    by (simp add: sortEntries_map [of normalizeEntry, OF weekStart_normalizeEntry])
qed

text \<open>Two valid weeks, stored out of order, come back sorted and normalized.\<close>

theorem sanitize_round_trip_witness:
  "validEntry storedWeek \<and> validEntry flaggedWeek
   \<and> parseStoredEntries asciiHost (JArray (map jsonRoundTrip [storedWeek, flaggedWeek]))
       = Some [normalizeEntry flaggedWeek, normalizeEntry storedWeek]"
proof -
  have v1: "validEntry storedWeek" by code_simp
  have v2: "validEntry flaggedWeek" by code_simp
  have v: "\<forall>e \<in> set [storedWeek, flaggedWeek]. validEntry e" using v1 v2 by simp
  have s: "sortEntries asciiHost [storedWeek, flaggedWeek] = [flaggedWeek, storedWeek]"
    by code_simp
  from sanitize_round_trip [OF v, of asciiHost] s v1 v2 show ?thesis by simp
qed

section \<open>Entries of the same week\<close>

lemma hostLe_same_week: "weekStart a = weekStart b \<Longrightarrow> hostLe h a e = hostLe h b e"
  by (simp add: hostLe_def)

lemma insertEntry_keeps_pair:
  assumes "weekStart a = weekStart b"
  shows "\<exists>P' Q'. insertEntry h x (P @ a # b # Q) = P' @ a # b # Q'"
proof (induction P)
  case Nil
  show ?case
  proof (cases "hostLe h x a")
    case True
    then have "insertEntry h x ([] @ a # b # Q) = [x] @ a # b # Q"
      by (simp add: insertEntry_hostLe del: insertEntry.simps)
    then show ?thesis by blast
  next
    case False
    then have "\<not> hostLe h x b" using assms by (simp add: hostLe_def)
    with False have "insertEntry h x ([] @ a # b # Q) = [] @ a # b # insertEntry h x Q"
      by (simp add: insertEntry_hostLe del: insertEntry.simps)
    then show ?thesis by blast
  qed
next
  case (Cons p P)
  show ?case
  proof (cases "hostLe h x p")
    case True
    then have "insertEntry h x ((p # P) @ a # b # Q) = (x # p # P) @ a # b # Q"
      by (simp add: insertEntry_hostLe del: insertEntry.simps)
    then show ?thesis by blast
  next
    case False
    from Cons.IH obtain P' Q' where "insertEntry h x (P @ a # b # Q) = P' @ a # b # Q'"
      by blast
    with False have "insertEntry h x ((p # P) @ a # b # Q) = (p # P') @ a # b # Q'"
      by (simp add: insertEntry_hostLe del: insertEntry.simps)
    then show ?thesis by blast
  qed
qed

lemma foldr_insertEntry_keeps_pair:
  assumes "weekStart a = weekStart b"
  shows "\<exists>P' Q'. foldr (insertEntry h) xs (P @ a # b # Q) = P' @ a # b # Q'"
proof (induction xs)
  case Nil
  show ?case by simp blast
next
  case (Cons x xs)
  from Cons.IH obtain P1 Q1
    where "foldr (insertEntry h) xs (P @ a # b # Q) = P1 @ a # b # Q1" by blast
  then show ?case using insertEntry_keeps_pair [OF assms, of h x P1 Q1] by simp
qed

lemma insertEntry_place:
  "\<exists>P Q. insertEntry h b L = P @ b # Q \<and> (\<forall>e \<in> set P. \<not> hostLe h b e)"
proof (induction L)
  case Nil
  have "insertEntry h b [] = [] @ b # []" by simp
  then show ?case by fastforce
next
  case (Cons p L)
  show ?case
  proof (cases "hostLe h b p")
    case True
    then have "insertEntry h b (p # L) = [] @ b # (p # L)"
      by (simp add: insertEntry_hostLe del: insertEntry.simps)
    then show ?thesis by fastforce
  next
    case False
    from Cons.IH obtain P Q
      where pq: "insertEntry h b L = P @ b # Q" "\<forall>e \<in> set P. \<not> hostLe h b e" by blast
    with False have "insertEntry h b (p # L) = (p # P) @ b # Q"
      by (simp add: insertEntry_hostLe del: insertEntry.simps)
    moreover have "\<forall>e \<in> set (p # P). \<not> hostLe h b e" using False pq(2) by simp
    ultimately show ?thesis by blast
  qed
qed

lemma insertEntry_before_stays:
  assumes c: "consistentComparator h"
    and ne: "\<not> (hostLe h y b \<and> hostLe h b y)"
  shows "\<forall>e \<in> set P. \<not> hostLe h b e \<Longrightarrow>
     \<exists>P' Q'. insertEntry h y (P @ b # Q) = P' @ b # Q' \<and> (\<forall>e \<in> set P'. \<not> hostLe h b e)"
proof (induction P)
  case Nil
  show ?case
  proof (cases "hostLe h y b")
    case True
    then have "insertEntry h y ([] @ b # Q) = [y] @ b # Q"
      by (simp add: insertEntry_hostLe del: insertEntry.simps)
    moreover have "\<forall>e \<in> set [y]. \<not> hostLe h b e" using True ne by simp
    ultimately show ?thesis by blast
  next
    case False
    then have "insertEntry h y ([] @ b # Q) = [] @ b # insertEntry h y Q"
      by (simp add: insertEntry_hostLe del: insertEntry.simps)
    then show ?thesis by fastforce
  qed
next
  case (Cons p P)
  show ?case
  proof (cases "hostLe h y p")
    case True
    then have eq: "insertEntry h y ((p # P) @ b # Q) = (y # p # P) @ b # Q"
      by (simp add: insertEntry_hostLe del: insertEntry.simps)
    have "\<not> hostLe h b y"
    proof
      assume "hostLe h b y"
      then have "hostLe h b p" using True hostLe_trans [OF c] by blast
      then show False using Cons.prems by simp
    qed
    then have "\<forall>e \<in> set (y # p # P). \<not> hostLe h b e" using Cons.prems by simp
    with eq show ?thesis by blast
  next
    case False
    from Cons obtain P' Q'
      where pq: "insertEntry h y (P @ b # Q) = P' @ b # Q'" "\<forall>e \<in> set P'. \<not> hostLe h b e"
      by auto
    with False have "insertEntry h y ((p # P) @ b # Q) = (p # P') @ b # Q'"
      by (simp add: insertEntry_hostLe del: insertEntry.simps)
    moreover have "\<forall>e \<in> set (p # P'). \<not> hostLe h b e" using Cons.prems pq(2) by simp
    ultimately show ?thesis by blast
  qed
qed

lemma foldr_insertEntry_before_stays:
  assumes c: "consistentComparator h"
    and P: "\<forall>e \<in> set P. \<not> hostLe h b e"
  shows "\<forall>y \<in> set ys. \<not> (hostLe h y b \<and> hostLe h b y) \<Longrightarrow>
     \<exists>P' Q'. foldr (insertEntry h) ys (P @ b # Q) = P' @ b # Q'
              \<and> (\<forall>e \<in> set P'. \<not> hostLe h b e)"
proof (induction ys)
  case Nil
  show ?case using P by simp blast
next
  case (Cons y ys)
  then obtain P1 Q1
    where pq: "foldr (insertEntry h) ys (P @ b # Q) = P1 @ b # Q1"
      "\<forall>e \<in> set P1. \<not> hostLe h b e" by auto
  have ne: "\<not> (hostLe h y b \<and> hostLe h b y)" using Cons.prems by simp
  from insertEntry_before_stays [OF c ne pq(2), of Q1] pq(1) show ?case by simp
qed

lemma insertEntry_joins_pair:
  assumes c: "consistentComparator h" and w: "weekStart a = weekStart b"
  shows "\<forall>e \<in> set P. \<not> hostLe h b e \<Longrightarrow> insertEntry h a (P @ b # Q) = P @ a # b # Q"
proof (induction P)
  case Nil
  have "hostLe h a b" using hostLe_refl [OF c, of b] hostLe_same_week [OF w] by simp
  then show ?case by (simp add: insertEntry_hostLe del: insertEntry.simps)
next
  case (Cons p P)
  then have "\<not> hostLe h a p" using hostLe_same_week [OF w] by simp
  then show ?case using Cons by (simp add: insertEntry_hostLe del: insertEntry.simps)
qed

lemma sortEntries_pair_adjacent:
  assumes c: "consistentComparator h" and w: "weekStart a = weekStart b"
    and ys: "\<forall>y \<in> set ys. \<not> (hostLe h y b \<and> hostLe h b y)"
  shows "\<exists>P Q. sortEntries h (xs @ a # ys @ b # zs) = P @ a # b # Q"
proof -
  obtain P0 Q0 where p0: "insertEntry h b (sortEntries h zs) = P0 @ b # Q0"
      "\<forall>e \<in> set P0. \<not> hostLe h b e"
    using insertEntry_place by blast
  obtain P1 Q1 where p1: "foldr (insertEntry h) ys (P0 @ b # Q0) = P1 @ b # Q1"
      "\<forall>e \<in> set P1. \<not> hostLe h b e"
    using foldr_insertEntry_before_stays [OF c p0(2) ys] by blast
  have "sortEntries h (xs @ a # ys @ b # zs)
        = foldr (insertEntry h) xs
            (insertEntry h a (foldr (insertEntry h) ys (insertEntry h b (sortEntries h zs))))"
    by (simp add: sortEntries_def)
  also have "\<dots> = foldr (insertEntry h) xs (P1 @ a # b # Q1)"
    by (simp only: p0(1) p1(1) insertEntry_joins_pair [OF c w p1(2)])
  finally show ?thesis using foldr_insertEntry_keeps_pair [OF w, of h xs P1 Q1] by metis
qed

lemma counter_low_pair:
  "P a \<Longrightarrow> P b \<Longrightarrow> 2 \<le> counter P c (xs @ [a, b])"
proof -
  assume a: "P a" and b: "P b"
  have "counter P c (xs @ [a, b]) = counter P c ((xs @ [a]) @ [b])" by simp
  also have "\<dots> = counter P c xs + 2" using a b by (simp only: counter_snoc) simp
  finally show ?thesis by simp
qed

text \<open>
  Claim C10, amended. Entries with equal week starts are never merged: the derivation
  keeps every entry of its input, and the sanitizer returns one entry for every item,
  with the week starts of the items, each as often as it occurs. Two entries of the
  same week, with no entry between them in the input whose week start compares equal to
  theirs, stand next to each other in the derived sequence, in their input order, and are
  counted as two weeks: if both have a sleep score of at most 4, the later one carries
  the sleep flag.
\<close>

theorem same_week_entries_kept:
  assumes "consistentComparator h"
    and "weekStart a = weekStart b"
    and "\<forall>y \<in> set ys. \<not> (hostLe h y b \<and> hostLe h b y)"
  shows "length (computeDerivedWeeks h (xs @ a # ys @ b # zs)) = length (xs @ a # ys @ b # zs)
     \<and> mset (map WeekEntry.truncate (computeDerivedWeeks h (xs @ a # ys @ b # zs)))
         = mset (xs @ a # ys @ b # zs)
     \<and> (\<exists>i. Suc i < length (xs @ a # ys @ b # zs)
            \<and> WeekEntry.truncate (computeDerivedWeeks h (xs @ a # ys @ b # zs) ! i) = a
            \<and> WeekEntry.truncate (computeDerivedWeeks h (xs @ a # ys @ b # zs) ! Suc i) = b
            \<and> (lowSleep a \<and> lowSleep b \<longrightarrow>
                 sleep (autoFlags (computeDerivedWeeks h (xs @ a # ys @ b # zs) ! Suc i))))
     \<and> (parseStoredEntries h (JArray items) = Some out \<longrightarrow>
           length out = length items
         \<and> mset (map weekStart out)
             = mset (map (\<lambda>item. stringOf (getProp item ''weekStart'')) items))"
proof -
  let ?es = "xs @ a # ys @ b # zs"
  let ?S = "sortEntries h ?es"
  let ?D = "computeDerivedWeeks h ?es"
  let ?z = "\<lparr>sleepStreak = 0, contactStreak = 0, noIncomeStreak = 0\<rparr>"
  have len: "length ?D = length ?es"
    by (simp add: computeDerivedWeeks_def length_mapWeeks length_sortEntries)
  have tr: "map WeekEntry.truncate ?D = ?S"
    by (simp add: computeDerivedWeeks_def truncate_mapWeeks)
  have ms: "mset (map WeekEntry.truncate ?D) = mset ?es"
    by (simp only: tr mset_sortEntries)
  obtain P Q where S: "?S = P @ a # b # Q"
    using sortEntries_pair_adjacent [OF assms] by blast
  let ?i = "length P"
  have lS: "length ?S = length ?es" by (rule length_sortEntries)
  have i: "Suc ?i < length ?S" by (simp add: S)
  have ta: "WeekEntry.truncate (?D ! ?i) = a"
  proof -
    have "WeekEntry.truncate (?D ! ?i) = map WeekEntry.truncate ?D ! ?i"
      using i len lS by simp
    also have "\<dots> = a" by (simp only: tr S) simp
    finally show ?thesis .
  qed
  have tb: "WeekEntry.truncate (?D ! Suc ?i) = b"
  proof -
    have "WeekEntry.truncate (?D ! Suc ?i) = map WeekEntry.truncate ?D ! Suc ?i"
      using i len lS by simp
    also have "\<dots> = b" by (simp only: tr S) (simp add: nth_append)
    finally show ?thesis .
  qed
  have fl: "sleep (autoFlags (?D ! Suc ?i))" if low: "lowSleep a \<and> lowSleep b"
  proof -
    have tk: "take (Suc (Suc ?i)) ?S = P @ [a, b]" by (simp only: S) simp
    have "sleep (autoFlags (mapWeeks ?z ?S ! Suc ?i))
            = (2 \<le> counter lowSleep (sleepStreak ?z) (take (Suc (Suc ?i)) ?S))"
      by (rule flags_nth(1) [OF i])
    then show ?thesis
      unfolding computeDerivedWeeks_def tk using low counter_low_pair [of lowSleep a b] by simp
  qed
  have "Suc ?i < length ?es" using i lS by simp
  with ta tb fl have "\<exists>i. Suc i < length ?es
            \<and> WeekEntry.truncate (?D ! i) = a
            \<and> WeekEntry.truncate (?D ! Suc i) = b
            \<and> (lowSleep a \<and> lowSleep b \<longrightarrow> sleep (autoFlags (?D ! Suc i)))"
    by blast
  moreover have "length out = length items
         \<and> mset (map weekStart out)
             = mset (map (\<lambda>item. stringOf (getProp item ''weekStart'')) items)"
    if p: "parseStoredEntries h (JArray items) = Some out"
  proof -
    from p have out: "out = sortEntries h (map (sanitizeEntry h) items)"
      by (simp add: parseStoredEntries_array split: if_splits)
    have ws: "weekStart (sanitizeEntry h item) = stringOf (getProp item ''weekStart'')"
      for item by (simp add: sanitizeEntry_def sanitizeItem_def)
    have "mset (map weekStart out) = image_mset weekStart (mset out)" by simp
    also have "\<dots> = image_mset weekStart (mset (map (sanitizeEntry h) items))"
      by (simp only: out mset_sortEntries)
    also have "\<dots> = mset (map (\<lambda>item. stringOf (getProp item ''weekStart'')) items)"
      by (simp add: multiset.map_comp comp_def ws)
    finally show ?thesis by (simp add: out length_sortEntries)
  qed
  ultimately show ?thesis using len ms by blast
qed

text \<open>
  Two low-sleep entries of one week, given with an earlier week between them; and a
  batch of two items of one week, of which the sanitizer keeps both.
\<close>

theorem same_week_entries_kept_witness:
  "consistentComparator asciiHost
   \<and> weekStart (week ''2024-05-06'' (Some (Num 3)) None)
       = weekStart (week ''2024-05-06'' (Some (Num 4)) None)
   \<and> \<not> hostLe asciiHost (week ''2024-05-06'' (Some (Num 4)) None)
                          (week ''2024-04-29'' (Some (Num 9)) None)
   \<and> lowSleep (week ''2024-05-06'' (Some (Num 3)) None)
   \<and> lowSleep (week ''2024-05-06'' (Some (Num 4)) None)
   \<and> length (computeDerivedWeeks asciiHost sameWeek2) = 3
   \<and> (\<exists>i. WeekEntry.truncate (computeDerivedWeeks asciiHost sameWeek2 ! i)
              = week ''2024-05-06'' (Some (Num 3)) None
          \<and> WeekEntry.truncate (computeDerivedWeeks asciiHost sameWeek2 ! Suc i)
              = week ''2024-05-06'' (Some (Num 4)) None
          \<and> sleep (autoFlags (computeDerivedWeeks asciiHost sameWeek2 ! Suc i)))
   \<and> parseStoredEntries asciiHost batchSameWeek
       = Some [sanitizeItem asciiHost (JObject [(''weekStart'', JString ''2024-05-06'')])
                 ''2024-05-06'',
               sanitizeItem asciiHost (JObject [(''weekStart'', JString ''2024-05-06'')])
                 ''2024-05-06'']
   \<and> length [sanitizeItem asciiHost (JObject [(''weekStart'', JString ''2024-05-06'')])
                 ''2024-05-06'',
               sanitizeItem asciiHost (JObject [(''weekStart'', JString ''2024-05-06'')])
                 ''2024-05-06'']
       = length [JObject [(''weekStart'', JString ''2024-05-06'')],
                 JObject [(''weekStart'', JString ''2024-05-06'')]]"
proof -
  let ?item = "JObject [(''weekStart'', JString ''2024-05-06'')]"
  let ?out = "[sanitizeItem asciiHost ?item ''2024-05-06'',
               sanitizeItem asciiHost ?item ''2024-05-06'']"
  have p: "parseStoredEntries asciiHost (JArray [?item, ?item]) = Some ?out" by code_simp
  let ?a = "week ''2024-05-06'' (Some (Num 3)) None"
  let ?y = "week ''2024-04-29'' (Some (Num 9)) None"
  let ?b = "week ''2024-05-06'' (Some (Num 4)) None"
  have w: "weekStart ?a = weekStart ?b" by code_simp
  have n: "\<not> hostLe asciiHost ?b ?y" by code_simp
  have la: "lowSleep ?a" by code_simp
  have lb: "lowSleep ?b" by code_simp
  have ys: "\<forall>y \<in> set [?y]. \<not> (hostLe asciiHost y ?b \<and> hostLe asciiHost ?b y)"
    using n by simp
  have e: "sameWeek2 = [] @ ?a # [?y] @ ?b # []" by (simp add: sameWeek2_def)
  from same_week_entries_kept [OF consistent_asciiHost w ys, of "[]" "[]" "[?item, ?item]" ?out]
  show ?thesis unfolding e [symmetric] batchSameWeek_def using consistent_asciiHost w n la lb p
    by (auto simp: sameWeek2_def)
qed

text \<open>
  The claim as stated, for any two entries of the same week, fails when a third entry of
  that week with a high sleep score stands between them: the sort keeps the three in
  their input order, the counter is reset by the one in the middle, and the last of them
  is not flagged.
\<close>

theorem same_week_flag_counterexample:
  "weekStart (sameWeek3 ! 0) = weekStart (sameWeek3 ! 2)
   \<and> lowSleep (sameWeek3 ! 0) \<and> lowSleep (sameWeek3 ! 2)
   \<and> length (computeDerivedWeeks asciiHost sameWeek3) = 3
   \<and> WeekEntry.truncate (computeDerivedWeeks asciiHost sameWeek3 ! 0) = sameWeek3 ! 0
   \<and> WeekEntry.truncate (computeDerivedWeeks asciiHost sameWeek3 ! 2) = sameWeek3 ! 2
   \<and> \<not> sleep (autoFlags (computeDerivedWeeks asciiHost sameWeek3 ! 0))
   \<and> \<not> sleep (autoFlags (computeDerivedWeeks asciiHost sameWeek3 ! 1))
   \<and> \<not> sleep (autoFlags (computeDerivedWeeks asciiHost sameWeek3 ! 2))"
  by code_simp

section \<open>The working collection\<close>

text \<open>
  Claim C9. The collection is meant never to be empty: deleting from a collection of
  one entry changes nothing, and loading an empty stored array puts a fresh entry in its
  place. Importing an empty array does not: \<open>handleImport\<close> tests the sanitized array for
  \<open>null\<close> only, and an empty array is not \<open>null\<close>, so the collection becomes empty, and a
  deletion then leaves it empty.
\<close>

theorem import_of_empty_array_empties_collection:
  "handleImport asciiHost (Some (JArray [])) [flaggedWeek] = []
   \<and> loadEntries asciiHost ''2024-03-04'' (Some (JArray [])) = [createEmptyEntry ''2024-03-04'']
   \<and> handleDeleteEntry asciiHost 0 [flaggedWeek] = [flaggedWeek]
   \<and> handleClearAll ''2024-03-04'' True [flaggedWeek] = [createEmptyEntry ''2024-03-04'']
   \<and> handleDeleteEntry asciiHost 0 [] = []"
  by code_simp

end
